theory Spec2Isabelle
  imports Complex_Main "HOL-Library.Word"
begin

unbundle bit_operations_syntax

section \<open>Go runtime\<close>

text \<open>
  A Go panic ends the goroutine; it is a value here, so that every source function is
  total and a panicking call is visible in its result.
\<close>

datatype go_panic = IndexOutOfRange | DivideByZero | MakeSliceLenOutOfRange

text \<open>
  \<open>int64\<close> arithmetic: values are integers in \<open>[-2^63, 2^63)\<close> and every operation
  wraps around. Go's \<open>int\<close> is taken as 64 bits wide (a 64-bit platform), so the
  conversions \<open>int(x)\<close> and \<open>int64(i)\<close> are the identity.
\<close>

definition wrap64 :: "int \<Rightarrow> int" where
  "wrap64 x = (x + 2 ^ 63) mod 2 ^ 64 - 2 ^ 63"

text \<open>Go's \<open>/\<close> on integers truncates towards zero; the divisor is not zero here.\<close>

definition quo64 :: "int \<Rightarrow> int \<Rightarrow> int" where
  "quo64 a b = wrap64 (sgn a * sgn b * (\<bar>a\<bar> div \<bar>b\<bar>))"

type_synonym byte = "8 word"

section \<open>Route selection (\<open>findBestRoute\<close>)\<close>

text \<open>\<open>mesh.Route\<close>; its \<open>int\<close> fields are only compared, never computed with.\<close>

record Route =
  DestinationID :: string
  NextHop :: string
  HopCount :: int
  Quality :: int

text \<open>First loop: \<open>for _, route := range routes { if route.HopCount == 1 { return route } }\<close>.\<close>

fun firstDirect :: "Route list \<Rightarrow> Route option" where
  "firstDirect [] = None"
| "firstDirect (route # rest) = (if HopCount route = 1 then Some route else firstDirect rest)"

text \<open>
  Second loop: \<open>if route.Quality > bestRoute.Quality { bestRoute = route }\<close>, with
  \<open>bestRoute\<close> as the loop state.
\<close>

fun highestQuality :: "Route \<Rightarrow> Route list \<Rightarrow> Route" where
  "highestQuality bestRoute [] = bestRoute"
| "highestQuality bestRoute (route # rest) =
     highestQuality (if Quality route > Quality bestRoute then route else bestRoute) rest"

text \<open>
  \<open>bestRoute := routes[0]\<close> is the first statement: on an empty slice it panics before
  either loop runs.
\<close>

definition findBestRoute :: "Route list \<Rightarrow> go_panic + Route" where
  "findBestRoute routes =
     (case routes of
        [] \<Rightarrow> Inl IndexOutOfRange
      | bestRoute # _ \<Rightarrow>
          (case firstDirect routes of
             Some route \<Rightarrow> Inr route
           | None \<Rightarrow> Inr (highestQuality bestRoute routes)))"

section \<open>Mesh coordinator\<close>

record Config =
  NodeName :: string
  NodeID :: string
  ListenPort :: int
  EnableWiFiDirect :: bool
  EnableBluetooth :: bool
  EnableTCP :: bool
  EnableRelay :: bool
  RelayServers :: "string list"
  DataDir :: string

datatype NetworkMode = DirectMode | RelayMode | MixedMode

record ConnectionInfo =
  Mode :: NetworkMode
  ClientIsolation :: bool
  NATType :: string
  PublicIP :: string
  RelayAvailable :: bool

text \<open>\<open>mesh.Peer\<close> (the \<open>LastSeen\<close> time stamp is left out: nothing modelled reads it).\<close>

record Peer =
  ID :: string
  Name :: string
  Address :: string
  Protocol :: string
  IsOnline :: bool
  SignalStrength :: int
  ConnectionQuality :: string
  Routes :: "Route list"

text \<open>
  The package-level variables of \<open>mesh\<close>. \<open>knownPeers\<close> is a Go map from a key (the ID
  the peer is filed under) to a peer.
\<close>

record MeshState =
  meshConfig :: Config
  isRunning :: bool
  nodeID :: string
  knownPeers :: "string \<rightharpoonup> Peer"
  connectionInfo :: ConnectionInfo

text \<open>
  The errors the coordinator builds, one constructor per \<open>errors.New\<close> or
  \<open>fmt.Errorf\<close> of the source with the values it formats:
  \<open>NotRunning\<close> is "mesh node is not running",
  \<open>AmbiguousPeer q\<close> is "multiple peers found with name 'q'. Please use a specific ID",
  \<open>PeerNotFound q\<close> is "no peer found with ID or name 'q'",
  \<open>RelayFailed e\<close> is "failed to connect via relay: e" and
  \<open>DirectFailed e\<close> is "failed to connect: direct connection error: e".
\<close>

datatype mesh_error =
    NotRunning
  | AmbiguousPeer string
  | PeerNotFound string
  | RelayFailed string
  | DirectFailed string

text \<open>
  A \<open>range\<close> over a Go map visits every entry once, in an order the runtime chooses anew
  for each loop. An iteration is therefore a list of the map's entries without repeated
  keys; the two \<open>range\<close> loops of \<open>FindPeerByIdOrName\<close> each get their own.
\<close>

definition isIteration :: "('k \<rightharpoonup> 'v) \<Rightarrow> ('k \<times> 'v) list \<Rightarrow> bool" where
  "isIteration m entries \<longleftrightarrow> distinct (map fst entries) \<and> map_of entries = m"

text \<open>
  The loop of \<open>FindPeerByIdOrName\<close> over the IDs, run after the exact lookup failed:
  the first key visited that \<open>strings.EqualFold\<close> matches. \<open>strings.EqualFold\<close> is
  Go's standard library (Unicode case folding); the model takes it as the parameter
  \<open>equalFold\<close>.
\<close>

fun foldedIDLoop :: "(string \<Rightarrow> string \<Rightarrow> bool) \<Rightarrow> string \<Rightarrow> (string \<times> Peer) list \<Rightarrow> Peer option" where
  "foldedIDLoop equalFold idOrName [] = None"
| "foldedIDLoop equalFold idOrName ((key, peer) # rest) =
     (if equalFold key idOrName then Some peer else foldedIDLoop equalFold idOrName rest)"

text \<open>
  The loop over the names: an exact name match returns at once (\<open>Inl\<close>); otherwise
  the loop runs to its end with \<open>matchedPeer\<close> and \<open>matchCount\<close> as its state
  (\<open>Inr\<close>).
\<close>

fun nameLoop :: "(string \<Rightarrow> string \<Rightarrow> bool) \<Rightarrow> string \<Rightarrow> (string \<times> Peer) list
    \<Rightarrow> Peer option \<Rightarrow> int \<Rightarrow> Peer + (Peer option \<times> int)" where
  "nameLoop equalFold idOrName [] matchedPeer matchCount = Inr (matchedPeer, matchCount)"
| "nameLoop equalFold idOrName ((key, peer) # rest) matchedPeer matchCount =
     (if Peer.Name peer = idOrName then Inl peer
      else if equalFold (Peer.Name peer) idOrName
        then nameLoop equalFold idOrName rest (Some peer) (matchCount + 1)
        else nameLoop equalFold idOrName rest matchedPeer matchCount)"

text \<open>
  \<open>FindPeerByIdOrName\<close>, given the orders \<open>idRange\<close> and \<open>nameRange\<close> in which its two
  loops visit the directory. \<open>matchedPeer\<close> is set whenever \<open>matchCount\<close> is not 0, so
  the \<open>None\<close> under \<open>matchCount = 1\<close> (a \<open>nil\<close> peer) never arises.
\<close>

definition FindPeerByIdOrName ::
  "(string \<Rightarrow> string \<Rightarrow> bool) \<Rightarrow> (string \<times> Peer) list \<Rightarrow> (string \<times> Peer) list
    \<Rightarrow> MeshState \<Rightarrow> string \<Rightarrow> mesh_error + Peer" where
  "FindPeerByIdOrName equalFold idRange nameRange st idOrName =
     (if \<not> isRunning st then Inl NotRunning
      else case knownPeers st idOrName of
        Some peer \<Rightarrow> Inr peer
      | None \<Rightarrow>
         (case foldedIDLoop equalFold idOrName idRange of
            Some peer \<Rightarrow> Inr peer
          | None \<Rightarrow>
             (case nameLoop equalFold idOrName nameRange None 0 of
                Inl peer \<Rightarrow> Inr peer
              | Inr (matchedPeer, matchCount) \<Rightarrow>
                  if matchCount = 1 then
                    (case matchedPeer of Some peer \<Rightarrow> Inr peer | None \<Rightarrow> Inl (PeerNotFound idOrName))
                  else if matchCount > 1 then Inl (AmbiguousPeer idOrName)
                  else Inl (PeerNotFound idOrName))))"

text \<open>
  ASCII case folding, the restriction of \<open>strings.EqualFold\<close> to ASCII strings; used
  for the concrete runs below.
\<close>

definition lowerASCII :: "char \<Rightarrow> char" where
  "lowerASCII c =
     (case map_of (zip ''ABCDEFGHIJKLMNOPQRSTUVWXYZ'' ''abcdefghijklmnopqrstuvwxyz'') c of
        None \<Rightarrow> c
      | Some lower \<Rightarrow> lower)"

definition equalFoldASCII :: "string \<Rightarrow> string \<Rightarrow> bool" where
  "equalFoldASCII s t \<longleftrightarrow> map lowerASCII s = map lowerASCII t"

text \<open>
  The stages of the resolution, as sets of keys of the directory: the keys that
  \<open>equalFold\<close> matches with the query, the keys of the peers whose name is the query,
  and the keys of the peers whose name \<open>equalFold\<close> matches with the query.
\<close>

definition idMatches :: "(string \<Rightarrow> string \<Rightarrow> bool) \<Rightarrow> (string \<rightharpoonup> Peer) \<Rightarrow> string \<Rightarrow> string set" where
  "idMatches equalFold m q = {k \<in> dom m. equalFold k q}"

definition exactNameMatches :: "(string \<rightharpoonup> Peer) \<Rightarrow> string \<Rightarrow> string set" where
  "exactNameMatches m q = {k. \<exists>p. m k = Some p \<and> Peer.Name p = q}"

definition nameMatches :: "(string \<Rightarrow> string \<Rightarrow> bool) \<Rightarrow> (string \<rightharpoonup> Peer) \<Rightarrow> string \<Rightarrow> string set" where
  "nameMatches equalFold m q = {k. \<exists>p. m k = Some p \<and> equalFold (Peer.Name p) q}"

text \<open>A peer with a given ID and name, and a node with a given directory, for concrete runs.\<close>

definition peerNamed :: "string \<Rightarrow> string \<Rightarrow> Peer" where
  "peerNamed i n =
     \<lparr>Peer.ID = i, Peer.Name = n, Peer.Address = [], Peer.Protocol = ''tcp'', IsOnline = True,
      Peer.SignalStrength = 100, ConnectionQuality = [], Routes = []\<rparr>"

definition meshNode :: "bool \<Rightarrow> bool \<Rightarrow> bool \<Rightarrow> bool \<Rightarrow> (string \<rightharpoonup> Peer) \<Rightarrow> MeshState" where
  "meshNode running isolated wifiDirect relay peers =
     \<lparr>meshConfig =
        \<lparr>NodeName = ''node'', NodeID = ''node-1'', ListenPort = 9000,
         EnableWiFiDirect = wifiDirect, EnableBluetooth = False, EnableTCP = True,
         EnableRelay = relay, RelayServers = [], DataDir = []\<rparr>,
      isRunning = running, nodeID = ''node-1'', knownPeers = peers,
      connectionInfo =
        \<lparr>Mode = DirectMode, ClientIsolation = isolated, NATType = ''Unknown'', PublicIP = [],
         RelayAvailable = False\<rparr>\<rparr>"

text \<open>
  The three connection strategies. In the source each is a stub that returns
  \<open>errors.New("not implemented")\<close>; \<open>ConnectToPeer\<close> is modelled over any outcome of
  theirs: \<open>None\<close> is a \<open>nil\<close> error (connected), \<open>Some e\<close> the error \<open>e\<close>.
\<close>

record Strategies =
  connectDirectly :: "Peer \<Rightarrow> string option"
  connectViaWiFiDirect :: "Peer \<Rightarrow> string option"
  connectViaRelay :: "Peer \<Rightarrow> string option"

definition sourceStrategies :: Strategies where
  "sourceStrategies =
     \<lparr>connectDirectly = (\<lambda>_. Some ''not implemented''),
      connectViaWiFiDirect = (\<lambda>_. Some ''not implemented''),
      connectViaRelay = (\<lambda>_. Some ''not implemented'')\<rparr>"

text \<open>Strategies that all fail, each with its own error, for concrete runs.\<close>

definition failing :: "string \<Rightarrow> string \<Rightarrow> string \<Rightarrow> Strategies" where
  "failing d w r =
     \<lparr>connectDirectly = (\<lambda>_. Some d), connectViaWiFiDirect = (\<lambda>_. Some w),
      connectViaRelay = (\<lambda>_. Some r)\<rparr>"

text \<open>
  The tail of \<open>ConnectToPeer\<close>, reached when the direct connection failed and WiFi
  Direct was not tried or failed too: the relay if it is enabled, and otherwise the final
  \<open>fmt.Errorf("failed to connect: direct connection error: %v", directErr)\<close>.
\<close>

definition relayOrFail :: "Strategies \<Rightarrow> MeshState \<Rightarrow> Peer \<Rightarrow> string \<Rightarrow> mesh_error option" where
  "relayOrFail strategies st peer directErr =
     (if EnableRelay (meshConfig st) then
        (case connectViaRelay strategies peer of
           None \<Rightarrow> None
         | Some relayErr \<Rightarrow> Some (RelayFailed relayErr))
      else Some (DirectFailed directErr))"

definition ConnectToPeer ::
  "(string \<Rightarrow> string \<Rightarrow> bool) \<Rightarrow> (string \<times> Peer) list \<Rightarrow> (string \<times> Peer) list
    \<Rightarrow> Strategies \<Rightarrow> MeshState \<Rightarrow> string \<Rightarrow> mesh_error option" where
  "ConnectToPeer equalFold idRange nameRange strategies st peerID =
     (case FindPeerByIdOrName equalFold idRange nameRange st peerID of
        Inl err \<Rightarrow> Some err
      | Inr peer \<Rightarrow>
         (case connectDirectly strategies peer of
            None \<Rightarrow> None
          | Some directErr \<Rightarrow>
             (if ClientIsolation (connectionInfo st) \<and> EnableWiFiDirect (meshConfig st) then
                (case connectViaWiFiDirect strategies peer of
                   None \<Rightarrow> None
                 | Some wifiErr \<Rightarrow> relayOrFail strategies st peer directErr)
              else relayOrFail strategies st peer directErr)))"

text \<open>
  What the specification says of a failed connection: the strategies attempted, in
  order, and the error of the last of them.
\<close>

datatype strategy = Direct | WiFiDirect | Relay

definition attempted :: "MeshState \<Rightarrow> strategy list" where
  "attempted st =
     [Direct]
     @ (if ClientIsolation (connectionInfo st) \<and> EnableWiFiDirect (meshConfig st) then [WiFiDirect] else [])
     @ (if EnableRelay (meshConfig st) then [Relay] else [])"

fun outcome :: "Strategies \<Rightarrow> Peer \<Rightarrow> strategy \<Rightarrow> string option" where
  "outcome strategies peer Direct = connectDirectly strategies peer"
| "outcome strategies peer WiFiDirect = connectViaWiFiDirect strategies peer"
| "outcome strategies peer Relay = connectViaRelay strategies peer"

text \<open>The strategy error that a returned connection error reports.\<close>

fun cause :: "mesh_error \<Rightarrow> string option" where
  "cause (RelayFailed e) = Some e"
| "cause (DirectFailed e) = Some e"
| "cause _ = None"

text \<open>
  The one caller of \<open>findBestRoute\<close>, in the \<open>send\<close> command of the interactive
  shell, once the peer is resolved: the next hop of the best route when the peer has
  routes, else the peer's address, else no address (\<open>None\<close>, reported as an error).
\<close>

definition sendAddress :: "Peer \<Rightarrow> go_panic + string option" where
  "sendAddress peer =
     (if length (Routes peer) > 0 then
        (case findBestRoute (Routes peer) of
           Inl p \<Rightarrow> Inl p
         | Inr bestRoute \<Rightarrow> Inr (Some (NextHop bestRoute)))
      else if Peer.Address peer \<noteq> [] then Inr (Some (Peer.Address peer))
      else Inr None)"

section \<open>Peer discovery (\<open>ScanForPeersWithOptions\<close>)\<close>

text \<open>
  \<open>p2p.PeerInfo\<close> (without the \<open>LastSeen\<close> time stamp) and \<open>p2p.ScanOptions\<close>.
  \<open>PeerInfo\<close> shares field names with \<open>Peer\<close>; they are written qualified.
\<close>

record PeerInfo =
  ID :: string
  Name :: string
  Address :: string
  Protocol :: string
  SignalStrength :: int
  Capabilities :: "string list"

record ScanOptions =
  Timeout :: int
  WifiDirect :: bool
  Bluetooth :: bool
  TCP :: bool
  MaxDistance :: int
  IncludeCache :: bool

text \<open>
  Each launched scan goroutine sends once, on \<open>errorsCh\<close> or on \<open>resultsCh\<close>. The
  \<open>select\<close> loop is modelled over the list of the sends it receives before the timer
  case is taken: when that list runs out while scanners are still awaited, the next
  case taken is \<open><-timer.C\<close>. A scanner that hangs simply never appears in the list.
\<close>

datatype scan_event = ScanError string | ScanResult "PeerInfo list"

text \<open>
  \<open>ScanTimeout errors\<close> is
  \<open>fmt.Errorf("scan timeout, partial results returned (errors: %v)", errors)\<close>.
\<close>

datatype scan_error = ScanTimeout "string list"

text \<open>
  \<open>for activeScanners > 0 { select { ... } }\<close>, with the results, the errors and whether
  the timer case was taken.
\<close>

fun waitForResults :: "scan_event list \<Rightarrow> int \<Rightarrow> PeerInfo list \<Rightarrow> string list
    \<Rightarrow> PeerInfo list \<times> string list \<times> bool" where
  "waitForResults [] activeScanners results errors =
     (if activeScanners > 0 then (results, errors, True) else (results, errors, False))"
| "waitForResults (ScanError err # rest) activeScanners results errors =
     (if activeScanners > 0 then waitForResults rest (activeScanners - 1) results (errors @ [err])
      else (results, errors, False))"
| "waitForResults (ScanResult peers # rest) activeScanners results errors =
     (if activeScanners > 0 then waitForResults rest (activeScanners - 1) (results @ peers) errors
      else (results, errors, False))"

text \<open>The inner loop over \<open>results\<close> that sets \<open>isDuplicate\<close>.\<close>

fun isDuplicate :: "PeerInfo \<Rightarrow> PeerInfo list \<Rightarrow> bool" where
  "isDuplicate peer [] = False"
| "isDuplicate peer (existing # rest) = (if PeerInfo.ID peer = PeerInfo.ID existing then True else isDuplicate peer rest)"

text \<open>
  The loop over \<open>cachedPeers\<close>; \<open>results\<close> grows while it runs, so a later cached peer
  is also compared with the cached peers appended before it.
\<close>

fun includeCached :: "PeerInfo list \<Rightarrow> PeerInfo list \<Rightarrow> PeerInfo list" where
  "includeCached [] results = results"
| "includeCached (peer # rest) results =
     includeCached rest
       (if \<not> isDuplicate peer results then results @ [peer\<lparr>PeerInfo.SignalStrength := 0\<rparr>] else results)"

definition launched :: "ScanOptions \<Rightarrow> int" where
  "launched options =
     (if WifiDirect options then 1 else 0) + (if Bluetooth options then 1 else 0)
     + (if TCP options then 1 else 0)"

text \<open>
  \<open>ScanForPeersWithOptions\<close> over the sends it receives (\<open>events\<close>) and over what
  \<open>getCachedPeers()\<close> returns (\<open>cachedPeers\<close>); the scans and the cache of the source
  follow below.
\<close>

definition ScanForPeersWithOptions :: "scan_event list \<Rightarrow> PeerInfo list \<Rightarrow> ScanOptions
    \<Rightarrow> PeerInfo list \<times> scan_error option" where
  "ScanForPeersWithOptions events cachedPeers options =
     (case waitForResults events (launched options) [] [] of
        (results, errors, timedOut) \<Rightarrow>
          if timedOut then (results, Some (ScanTimeout errors))
          else if IncludeCache options then (includeCached cachedPeers results, None)
          else (results, None))"

text \<open>The results gathered from the scanners, before the cache is merged in.\<close>

definition liveResults :: "scan_event list \<Rightarrow> ScanOptions \<Rightarrow> PeerInfo list" where
  "liveResults events options = fst (waitForResults events (launched options) [] [])"

definition DefaultScanOptions :: ScanOptions where
  "DefaultScanOptions =
     \<lparr>Timeout = 30 * 1000000000, WifiDirect = True, Bluetooth = True, TCP = True,
      MaxDistance = 100, IncludeCache = True\<rparr>"

text \<open>
  The three scans of the source, \<open>scanWifiDirect\<close>, \<open>scanBluetooth\<close> and \<open>scanTCP\<close>:
  placeholders that ignore the \<open>done\<close> channel and return one fixed peer each, never an
  error (\<open>Inl\<close> would be the error). \<open>getCachedPeers\<close> returns an empty slice.
\<close>

definition scanWifiDirect :: "string + PeerInfo list" where
  "scanWifiDirect =
     Inr [\<lparr>ID = ''wfd-1234'', Name = ''Laptop-WFD'', Address = ''192.168.49.1'',
          Protocol = ''wifi-direct'', SignalStrength = 80,
          Capabilities = [''transfer'', ''mesh'']\<rparr>]"

definition scanBluetooth :: "string + PeerInfo list" where
  "scanBluetooth =
     Inr [\<lparr>ID = ''bt-5678'', Name = ''Phone-BT'', Address = ''00:11:22:33:44:55'',
          Protocol = ''bluetooth'', SignalStrength = 60, Capabilities = [''transfer'']\<rparr>]"

definition scanTCP :: "string + PeerInfo list" where
  "scanTCP =
     Inr [\<lparr>ID = ''tcp-9012'', Name = ''Desktop-TCP'', Address = ''192.168.1.100'',
          Protocol = ''tcp'', SignalStrength = 100,
          Capabilities = [''transfer'', ''mesh'', ''relay'']\<rparr>]"

definition getCachedPeers :: "PeerInfo list" where
  "getCachedPeers = []"

text \<open>
  The goroutine launched for a scan: the error, wrapped with the transport's label, goes
  to \<open>errorsCh\<close>, and otherwise the peers go to \<open>resultsCh\<close>.
\<close>

definition scanTask :: "string \<Rightarrow> string + PeerInfo list \<Rightarrow> scan_event" where
  "scanTask label scanned =
     (case scanned of
        Inl err \<Rightarrow> ScanError (label @ '' scan error: '' @ err)
      | Inr peers \<Rightarrow> ScanResult peers)"

datatype scanner = WifiDirectScanner | BluetoothScanner | TCPScanner

fun send :: "scanner \<Rightarrow> scan_event" where
  "send WifiDirectScanner = scanTask ''WiFi Direct'' scanWifiDirect"
| "send BluetoothScanner = scanTask ''Bluetooth'' scanBluetooth"
| "send TCPScanner = scanTask ''TCP'' scanTCP"

text \<open>
  The scanners that the options launch. A run of the source is given by the scanners
  whose sends the loop receives before the timer case is taken, in the order received:
  a list of launched scanners without repetition.
\<close>

definition launchedScanners :: "ScanOptions \<Rightarrow> scanner list" where
  "launchedScanners options =
     (if WifiDirect options then [WifiDirectScanner] else [])
     @ (if Bluetooth options then [BluetoothScanner] else [])
     @ (if TCP options then [TCPScanner] else [])"

text \<open>The transports that have not responded when the timer case is taken.\<close>

definition pending :: "ScanOptions \<Rightarrow> scanner list \<Rightarrow> scanner list" where
  "pending options arrived = filter (\<lambda>s. s \<notin> set arrived) (launchedScanners options)"

text \<open>What a receive adds to \<open>results\<close>, and what it adds to \<open>errors\<close>.\<close>

fun received :: "scan_event \<Rightarrow> PeerInfo list" where
  "received (ScanResult peers) = peers"
| "received (ScanError err) = []"

fun failed :: "scan_event \<Rightarrow> string list" where
  "failed (ScanResult peers) = []"
| "failed (ScanError err) = [err]"

text \<open>A cached peer with a given ID, protocol and signal strength, for concrete runs.\<close>

definition peerOn :: "string \<Rightarrow> string \<Rightarrow> int \<Rightarrow> PeerInfo" where
  "peerOn i proto strength =
     \<lparr>ID = i, Name = ''Laptop'', Address = ''192.168.1.100'', Protocol = proto,
      SignalStrength = strength, Capabilities = [''transfer'']\<rparr>"

section \<open>Framed messages over TCP (\<open>packMessage\<close>, \<open>handlePeer\<close>)\<close>

text \<open>\<open>binary.BigEndian.PutUint32\<close> and \<open>binary.BigEndian.Uint32\<close> of Go's library.\<close>

definition PutUint32 :: "32 word \<Rightarrow> byte list" where
  "PutUint32 v = [ucast (drop_bit 24 v), ucast (drop_bit 16 v), ucast (drop_bit 8 v), ucast v]"

definition Uint32 :: "byte list \<Rightarrow> 32 word" where
  "Uint32 b =
     ucast (b ! 3) OR push_bit 8 (ucast (b ! 2)) OR push_bit 16 (ucast (b ! 1))
     OR push_bit 24 (ucast (b ! 0))"

text \<open>\<open>uint32(len(data))\<close> keeps the low 32 bits of the length.\<close>

definition packMessage :: "byte list \<Rightarrow> byte list" where
  "packMessage data = PutUint32 (of_nat (length data)) @ data"

definition maxMessageSize :: int where
  "maxMessageSize = 100 * 1024 * 1024"

text \<open>\<open>isFatalError\<close> returns \<open>false\<close> for every error.\<close>

definition isFatalError :: "string \<Rightarrow> bool" where
  "isFatalError err = False"

text \<open>Why the read loop of \<open>handlePeer\<close> was left; each is a \<open>break\<close> of the source.\<close>

datatype loop_exit =
    EndOfStream
  | HeaderReadError
  | LengthTooLarge
  | MessageReadError
  | FatalError string

text \<open>
  The read loop of \<open>handlePeer\<close> over the bytes the connection delivers before it is
  closed or times out. A read that the stream cannot fill fails (\<open>io.ReadFull\<close> returns
  \<open>io.EOF\<close> when it read nothing, \<open>io.ErrUnexpectedEOF\<close> otherwise) and the loop is
  left. \<open>length := int(binary.BigEndian.Uint32(lengthBytes))\<close> is never negative where
  \<open>int\<close> has 64 bits. \<open>process\<close> is \<open>tm.processMessage(peer, _)\<close>, with \<open>None\<close> for a
  \<open>nil\<close> error. The result is the list of the messages handed to \<open>processMessage\<close>
  and the reason for leaving the loop, after which the connection is closed.
\<close>

definition consMessage :: "byte list \<Rightarrow> byte list list \<times> loop_exit \<Rightarrow> byte list list \<times> loop_exit" where
  "consMessage message r = (message # fst r, snd r)"

function handlePeer :: "(byte list \<Rightarrow> string option) \<Rightarrow> byte list \<Rightarrow> byte list list \<times> loop_exit" where
  "handlePeer process stream =
     (if length stream < 4 then ([], if stream = [] then EndOfStream else HeaderReadError)
      else
        let len = uint (Uint32 (take 4 stream)); rest = drop 4 stream in
        if len \<le> 0 \<or> len > maxMessageSize then
          (if len > maxMessageSize then ([], LengthTooLarge) else handlePeer process rest)
        else if int (length rest) < len then ([], MessageReadError)
        else
          let message = take (nat len) rest in
          (case process message of
             None \<Rightarrow> consMessage message (handlePeer process (drop (nat len) rest))
           | Some err \<Rightarrow>
               if isFatalError err then ([message], FatalError err)
               else consMessage message (handlePeer process (drop (nat len) rest))))"
  by pat_completeness auto
termination
  by (relation "measure (\<lambda>(process, stream). length stream)") auto

declare handlePeer.simps [simp del]

section \<open>Chunked transfer (\<open>SendFileChunked\<close>)\<close>

record ChunkInfo =
  Index :: int
  Size :: int
  Offset :: int
  Checksum :: string
  Completed :: bool

text \<open>
  \<open>transfer.TransferOptions\<close> without its callback, and \<open>transfer.FileTransferInfo\<close>
  without the start time, the mutex and the error (which is the result here). Field
  names that two records share are written qualified.
\<close>

record TransferOptions =
  ChunkSize :: int
  Parallelism :: int
  RetryCount :: int
  RetryDelay :: int
  CompressData :: bool
  VerifyChecksums :: bool

record FileTransferInfo =
  FileID :: string
  FileName :: string
  FilePath :: string
  FileSize :: int
  ChunkSize :: int
  Chunks :: "ChunkInfo list"
  TotalChunks :: int
  Completed :: int
  TransferRate :: int
  Status :: string

definition DefaultTransferOptions :: TransferOptions where
  "DefaultTransferOptions =
     \<lparr>TransferOptions.ChunkSize = 1 * 1024 * 1024, Parallelism = 5, RetryCount = 3, RetryDelay = 1000000000,
      CompressData = True, VerifyChecksums = True\<rparr>"

text \<open>
  What \<open>SendFileChunked\<close> asks of its environment: \<open>os.Open\<close> (\<open>Some e\<close> is its
  error), \<open>file.Stat().Size()\<close>, \<open>generateFileID\<close> (a hash of the path and the clock),
  \<open>filepath.Base\<close>, and \<open>calculateChunkChecksum(file, offset, size)\<close>, which seeks,
  reads the file and returns the SHA-256 digest of the bytes read or the I/O error.
\<close>

record FileSystem =
  openError :: "string \<Rightarrow> string option"
  statSize :: "string \<Rightarrow> string + int"
  fileID :: "string \<Rightarrow> string"
  baseName :: "string \<Rightarrow> string"
  calculateChunkChecksum :: "string \<Rightarrow> int \<Rightarrow> int \<Rightarrow> string + string"

datatype transfer_error =
    OpenFailed string
  | StatFailed string
  | ChecksumFailed string
  | MetadataFailed string
  | ChunksFailed string
  | Panic go_panic

text \<open>\<open>offset := int64(i) * chunkSize\<close> and the \<open>size\<close> computed from it.\<close>

definition chunkOffset :: "int \<Rightarrow> int \<Rightarrow> int" where
  "chunkOffset i chunkSize = wrap64 (i * chunkSize)"

definition chunkLength :: "int \<Rightarrow> int \<Rightarrow> int \<Rightarrow> int" where
  "chunkLength fileSize chunkSize offset =
     (if wrap64 (offset + chunkSize) > fileSize then wrap64 (fileSize - offset) else chunkSize)"

text \<open>
  \<open>for i := 0; i < totalChunks; i++\<close>, writing \<open>transferInfo.Chunks[i]\<close>; an error of
  the checksum returns from \<open>SendFileChunked\<close>. \<open>i < totalChunks\<close> keeps \<open>i + 1\<close> in
  range.
\<close>

function prepareChunks :: "(int \<Rightarrow> int \<Rightarrow> string + string) \<Rightarrow> int \<Rightarrow> int \<Rightarrow> int \<Rightarrow> int
    \<Rightarrow> ChunkInfo list \<Rightarrow> transfer_error + ChunkInfo list" where
  "prepareChunks checksumOf fileSize chunkSize totalChunks i chunks =
     (if i < totalChunks then
        (case checksumOf (chunkOffset i chunkSize)
                (chunkLength fileSize chunkSize (chunkOffset i chunkSize)) of
           Inl err \<Rightarrow> Inl (ChecksumFailed err)
         | Inr checksum \<Rightarrow>
             prepareChunks checksumOf fileSize chunkSize totalChunks (i + 1)
               (chunks[nat i :=
                  \<lparr>Index = i,
                   Size = chunkLength fileSize chunkSize (chunkOffset i chunkSize),
                   Offset = chunkOffset i chunkSize,
                   Checksum = checksum,
                   ChunkInfo.Completed = False\<rparr>]))
      else Inr chunks)"
  by pat_completeness auto
termination
  by (relation "measure (\<lambda>(checksumOf, fileSize, chunkSize, totalChunks, i, chunks). nat (totalChunks - i))") auto

declare prepareChunks.simps [simp del]

text \<open>The zero value of \<open>ChunkInfo\<close>, which \<open>make([]ChunkInfo, totalChunks)\<close> fills with.\<close>

definition zeroChunk :: ChunkInfo where
  "zeroChunk = \<lparr>Index = 0, Size = 0, Offset = 0, Checksum = [], ChunkInfo.Completed = False\<rparr>"

text \<open>
  \<open>make([]ChunkInfo, n)\<close> panics with "makeslice: len out of range" when \<open>n\<close> is
  negative or the slice would exceed what the runtime can allocate at all: \<open>maxAlloc\<close>,
  which is \<open>2^48\<close> bytes on the 64-bit targets of this repository (amd64 and arm64). A
  \<open>ChunkInfo\<close> takes 48 bytes there: two \<open>int64\<close> and an \<open>int\<close> of 8 bytes each, a
  string header of 16 and a \<open>bool\<close>, padded to a multiple of 8. Below that limit the
  allocation is taken to succeed: the memory the machine really has is not modelled.
\<close>

definition maxAlloc :: int where
  "maxAlloc = 2 ^ 48"

definition chunkInfoSize :: int where
  "chunkInfoSize = 48"

definition makeSlicePanics :: "int \<Rightarrow> bool" where
  "makeSlicePanics n \<longleftrightarrow> n < 0 \<or> n * chunkInfoSize > maxAlloc"

text \<open>\<open>sendFileMetadata\<close> and \<open>sendFileChunks\<close> are placeholders that return \<open>nil\<close>.\<close>

definition sendFileMetadata :: "FileTransferInfo \<Rightarrow> string \<Rightarrow> string option" where
  "sendFileMetadata info peerID = None"

definition sendFileChunks :: "FileTransferInfo \<Rightarrow> string \<Rightarrow> TransferOptions \<Rightarrow> string option" where
  "sendFileChunks info peerID options = None"

text \<open>
  \<open>SendFileChunked\<close>, returning the error or the transfer record as it stands when the
  function returns \<open>nil\<close>. A chunk size of 0 panics in the division, and a chunk
  count that is negative or beyond the allocation limit panics in \<open>make\<close>.
\<close>

definition SendFileChunked :: "FileSystem \<Rightarrow> string \<Rightarrow> string \<Rightarrow> TransferOptions
    \<Rightarrow> transfer_error + FileTransferInfo" where
  "SendFileChunked fs filePath peerID options =
     (case openError fs filePath of
        Some err \<Rightarrow> Inl (OpenFailed err)
      | None \<Rightarrow>
     (case statSize fs filePath of
        Inl err \<Rightarrow> Inl (StatFailed err)
      | Inr fileSize \<Rightarrow>
     (let chunkSize = TransferOptions.ChunkSize options in
      if chunkSize = 0 then Inl (Panic DivideByZero)
      else
        let totalChunks = quo64 (wrap64 (wrap64 (fileSize + chunkSize) - 1)) chunkSize in
        if makeSlicePanics totalChunks then Inl (Panic MakeSliceLenOutOfRange)
        else
          (case prepareChunks (calculateChunkChecksum fs filePath) fileSize chunkSize totalChunks 0
                  (replicate (nat totalChunks) zeroChunk) of
             Inl err \<Rightarrow> Inl err
           | Inr chunks \<Rightarrow>
               (let transferInfo =
                  \<lparr>FileID = fileID fs filePath, FileName = baseName fs filePath,
                   FilePath = filePath, FileSize = fileSize,
                   FileTransferInfo.ChunkSize = chunkSize, Chunks = chunks,
                   TotalChunks = totalChunks, FileTransferInfo.Completed = 0,
                   TransferRate = 0, Status = ''preparing''\<rparr> in
                case sendFileMetadata transferInfo peerID of
                  Some err \<Rightarrow> Inl (MetadataFailed err)
                | None \<Rightarrow>
                   (case sendFileChunks (transferInfo\<lparr>Status := ''transferring''\<rparr>) peerID options of
                      Some err \<Rightarrow> Inl (ChunksFailed err)
                    | None \<Rightarrow> Inr (transferInfo\<lparr>Status := ''completed''\<rparr>)))))))"

text \<open>A file system that holds every path as a readable file of the given size.\<close>

definition fileOfSize :: "int \<Rightarrow> FileSystem" where
  "fileOfSize n =
     \<lparr>openError = (\<lambda>_. None), statSize = (\<lambda>_. Inr n), fileID = (\<lambda>_. ''id''),
      baseName = (\<lambda>path. path), calculateChunkChecksum = (\<lambda>_ _ _. Inr ''digest'')\<rparr>"

section \<open>Route selection: proofs\<close>

lemma firstDirect_find: "firstDirect routes = find (\<lambda>r. HopCount r = 1) routes"
  by (induction routes) auto

lemma firstDirect_None: "firstDirect routes = None \<longleftrightarrow> (\<forall>r \<in> set routes. HopCount r \<noteq> 1)"
  by (induction routes) auto

lemma highestQuality_cases:
  "(highestQuality b rs = b \<and> (\<forall>r \<in> set rs. Quality r \<le> Quality b))
   \<or> (\<exists>i < length rs. highestQuality b rs = rs ! i
          \<and> Quality b < Quality (rs ! i)
          \<and> (\<forall>j < i. Quality (rs ! j) < Quality (rs ! i))
          \<and> (\<forall>j < length rs. Quality (rs ! j) \<le> Quality (rs ! i)))"
proof (induction rs arbitrary: b)
  case Nil
  then show ?case by simp
next
  case (Cons r rs)
  let ?b' = "if Quality r > Quality b then r else b"
  from Cons.IH [of ?b'] show ?case
  proof (elim disjE conjE exE)
    assume same: "highestQuality ?b' rs = ?b'" and le: "\<forall>x \<in> set rs. Quality x \<le> Quality ?b'"
    show ?thesis
    proof (cases "Quality r > Quality b")
      case True
      with same le have "highestQuality b (r # rs) = (r # rs) ! 0"
        and "\<forall>j < length (r # rs). Quality ((r # rs) ! j) \<le> Quality ((r # rs) ! 0)"
        by (auto simp: nth_Cons split: nat.splits)
      with True show ?thesis by (intro disjI2 exI [of _ 0]) simp
    next
      case False
      with same le show ?thesis by auto
    qed
  next
    fix i
    assume i: "i < length rs" and eq: "highestQuality ?b' rs = rs ! i"
      and gt: "Quality ?b' < Quality (rs ! i)"
      and first: "\<forall>j < i. Quality (rs ! j) < Quality (rs ! i)"
      and all: "\<forall>j < length rs. Quality (rs ! j) \<le> Quality (rs ! i)"
    have rb: "Quality r < Quality (rs ! i)" "Quality b < Quality (rs ! i)"
      using gt by (auto split: if_splits)
    have "\<forall>j < Suc i. Quality ((r # rs) ! j) < Quality (rs ! i)"
      using first rb by (auto simp: nth_Cons split: nat.splits)
    moreover have "\<forall>j < length (r # rs). Quality ((r # rs) ! j) \<le> Quality (rs ! i)"
      using all rb by (auto simp: nth_Cons split: nat.splits)
    ultimately show ?thesis
      using i eq rb by (intro disjI2 exI [of _ "Suc i"]) simp
  qed
qed

lemma highestQuality_head:
  "\<exists>i < length (r # rs). highestQuality r (r # rs) = (r # rs) ! i
      \<and> (\<forall>j < i. Quality ((r # rs) ! j) < Quality ((r # rs) ! i))
      \<and> (\<forall>j < length (r # rs). Quality ((r # rs) ! j) \<le> Quality ((r # rs) ! i))"
  using highestQuality_cases [of r "r # rs"]
proof (elim disjE conjE exE)
  assume "highestQuality r (r # rs) = r" "\<forall>x \<in> set (r # rs). Quality x \<le> Quality r"
  then show ?thesis
    by (intro exI [of _ 0]) (auto simp: nth_Cons split: nat.splits)
next
  fix i
  assume "i < length (r # rs)" "highestQuality r (r # rs) = (r # rs) ! i"
    "\<forall>j < i. Quality ((r # rs) ! j) < Quality ((r # rs) ! i)"
    "\<forall>j < length (r # rs). Quality ((r # rs) ! j) \<le> Quality ((r # rs) ! i)"
  then show ?thesis by blast
qed

text \<open>
  Claim C6. On a non-empty route list \<open>findBestRoute\<close> returns the first route, in list
  order, whose \<open>HopCount\<close> is 1 when there is one, whatever its \<open>Quality\<close>; otherwise
  it returns a route of maximal \<open>Quality\<close>, and among those the first one. The
  returned route is \<open>routes ! i\<close>: every earlier route has a hop count other than 1,
  respectively a strictly smaller quality.
\<close>

theorem findBestRoute_selects:
  assumes "routes \<noteq> []"
  shows "\<exists>i < length routes. findBestRoute routes = Inr (routes ! i) \<and>
           (if \<exists>r \<in> set routes. HopCount r = 1
            then HopCount (routes ! i) = 1 \<and> (\<forall>j < i. HopCount (routes ! j) \<noteq> 1)
            else (\<forall>j < length routes. Quality (routes ! j) \<le> Quality (routes ! i))
               \<and> (\<forall>j < i. Quality (routes ! j) < Quality (routes ! i)))"
proof -
  from assms obtain r rs where routes: "routes = r # rs" by (cases routes) auto
  show ?thesis
  proof (cases "firstDirect routes")
    case None
    then have no: "\<not> (\<exists>r \<in> set routes. HopCount r = 1)" by (simp add: firstDirect_None)
    have "findBestRoute routes = Inr (highestQuality r routes)"
      using None routes by (simp add: findBestRoute_def)
    with highestQuality_head [of r rs] no routes show ?thesis by auto
  next
    case (Some d)
    then have "find (\<lambda>r. HopCount r = 1) routes = Some d" by (simp add: firstDirect_find)
    then obtain i where i: "i < length routes" "HopCount (routes ! i) = 1" "d = routes ! i"
      "\<forall>j < i. HopCount (routes ! j) \<noteq> 1"
      by (auto simp: find_Some_iff)
    then have ex: "\<exists>r \<in> set routes. HopCount r = 1" by (metis nth_mem)
    have "findBestRoute routes = Inr d" using Some routes by (simp add: findBestRoute_def)
    with i ex show ?thesis by auto
  qed
qed

text \<open>
  The list of the specification, \<open>[{Hop:3,Q:90},{Hop:1,Q:40},{Hop:2,Q:95}]\<close>: the
  route with one hop and quality 40 is returned, not the one of quality 95.
\<close>

theorem findBestRoute_selects_witness:
  "[\<lparr>DestinationID = ''p'', NextHop = ''a'', HopCount = 3, Quality = 90\<rparr>,
    \<lparr>DestinationID = ''p'', NextHop = ''b'', HopCount = 1, Quality = 40\<rparr>,
    \<lparr>DestinationID = ''p'', NextHop = ''c'', HopCount = 2, Quality = 95\<rparr>] \<noteq> []
   \<and> findBestRoute
        [\<lparr>DestinationID = ''p'', NextHop = ''a'', HopCount = 3, Quality = 90\<rparr>,
         \<lparr>DestinationID = ''p'', NextHop = ''b'', HopCount = 1, Quality = 40\<rparr>,
         \<lparr>DestinationID = ''p'', NextHop = ''c'', HopCount = 2, Quality = 95\<rparr>]
      = Inr \<lparr>DestinationID = ''p'', NextHop = ''b'', HopCount = 1, Quality = 40\<rparr>"
  using findBestRoute_selects
    [of "[\<lparr>DestinationID = ''p'', NextHop = ''a'', HopCount = 3, Quality = 90\<rparr>,
          \<lparr>DestinationID = ''p'', NextHop = ''b'', HopCount = 1, Quality = 40\<rparr>,
          \<lparr>DestinationID = ''p'', NextHop = ''c'', HopCount = 2, Quality = 95\<rparr>]"]
  by (simp add: findBestRoute_def)

text \<open>
  Claim C9. \<open>findBestRoute\<close> reads \<open>routes[0]\<close> before anything else: it panics with
  an index out of range exactly on the empty list and returns a route exactly on a
  non-empty one, so a caller has to rule the empty list out. Its caller does: it calls
  \<open>findBestRoute\<close> only under \<open>len(peer.Routes) > 0\<close> and never panics.
\<close>

theorem findBestRoute_panics_iff_empty:
  "(findBestRoute routes = Inl IndexOutOfRange \<longleftrightarrow> routes = [])
   \<and> ((\<exists>route. findBestRoute routes = Inr route) \<longleftrightarrow> routes \<noteq> [])
   \<and> (\<exists>address. sendAddress peer = Inr address)"
  by (auto simp: findBestRoute_def sendAddress_def split: list.splits option.splits)

section \<open>Chunked transfer: proofs\<close>

lemma prepareChunks_returns:
  "\<forall>offset size. \<exists>digest. checksumOf offset size = Inr digest \<Longrightarrow>
   \<exists>out. prepareChunks checksumOf fileSize chunkSize totalChunks i chunks = Inr out"
proof (induction checksumOf fileSize chunkSize totalChunks i chunks rule: prepareChunks.induct)
  case (1 checksumOf fileSize chunkSize totalChunks i chunks)
  show ?case
  proof (cases "i < totalChunks")
    case True
    obtain digest where d: "checksumOf (chunkOffset i chunkSize)
        (chunkLength fileSize chunkSize (chunkOffset i chunkSize)) = Inr digest"
      using "1.prems" by blast
    from "1.IH" [OF True d "1.prems"] show ?thesis
      by (subst prepareChunks.simps) (simp add: True d)
  next
    case False
    then show ?thesis by (subst prepareChunks.simps) simp
  qed
qed

lemma prepareChunks_layout:
  "prepareChunks checksumOf fileSize chunkSize totalChunks i chunks = Inr out \<Longrightarrow> 0 \<le> i \<Longrightarrow>
   length out = length chunks \<and>
   (\<forall>k < length chunks.
      (if i \<le> int k \<and> int k < totalChunks
       then Index (out ! k) = int k
          \<and> Offset (out ! k) = chunkOffset (int k) chunkSize
          \<and> Size (out ! k) = chunkLength fileSize chunkSize (chunkOffset (int k) chunkSize)
          \<and> \<not> ChunkInfo.Completed (out ! k)
       else out ! k = chunks ! k))"
proof (induction checksumOf fileSize chunkSize totalChunks i chunks arbitrary: out
    rule: prepareChunks.induct)
  case (1 checksumOf fileSize chunkSize totalChunks i chunks)
  show ?case
  proof (cases "i < totalChunks")
    case True
    let ?off = "chunkOffset i chunkSize"
    let ?len = "chunkLength fileSize chunkSize ?off"
    from "1.prems"(1) True obtain digest where d: "checksumOf ?off ?len = Inr digest"
      by (subst (asm) prepareChunks.simps) (auto split: sum.splits)
    let ?c = "\<lparr>Index = i, Size = ?len, Offset = ?off, Checksum = digest, ChunkInfo.Completed = False\<rparr>"
    have rec: "prepareChunks checksumOf fileSize chunkSize totalChunks (i + 1) (chunks[nat i := ?c]) = Inr out"
      using "1.prems"(1) True d by (subst (asm) prepareChunks.simps) simp
    from "1.IH" [OF True d rec] "1.prems"(2)
    have len: "length out = length chunks"
      and nth: "\<And>k. k < length chunks \<Longrightarrow>
        (if i + 1 \<le> int k \<and> int k < totalChunks
         then Index (out ! k) = int k
            \<and> Offset (out ! k) = chunkOffset (int k) chunkSize
            \<and> Size (out ! k) = chunkLength fileSize chunkSize (chunkOffset (int k) chunkSize)
            \<and> \<not> ChunkInfo.Completed (out ! k)
         else out ! k = (chunks[nat i := ?c]) ! k)"
      by auto
    show ?thesis
    proof (intro conjI allI impI)
      show "length out = length chunks" by (rule len)
    next
      fix k assume k: "k < length chunks"
      show "if i \<le> int k \<and> int k < totalChunks
       then Index (out ! k) = int k
          \<and> Offset (out ! k) = chunkOffset (int k) chunkSize
          \<and> Size (out ! k) = chunkLength fileSize chunkSize (chunkOffset (int k) chunkSize)
          \<and> \<not> ChunkInfo.Completed (out ! k)
       else out ! k = chunks ! k"
      proof (cases "int k = i")
        case True
        then have "nat i = k" by simp
        with nth [OF k] k True \<open>i < totalChunks\<close> show ?thesis by simp
      next
        case False
        then have "nat i \<noteq> k" using "1.prems"(2) by auto
        with nth [OF k] False show ?thesis by (auto split: if_splits)
      qed
    qed
  next
    case False
    with "1.prems"(1) have "out = chunks" by (subst (asm) prepareChunks.simps) simp
    with False show ?thesis by auto
  qed
qed

text \<open>\<open>int64\<close> arithmetic without overflow is integer arithmetic.\<close>

lemma wrap64_id: "- (2 ^ 63) \<le> x \<Longrightarrow> x < 2 ^ 63 \<Longrightarrow> wrap64 x = x"
  by (simp add: wrap64_def)

lemma wrap64_pred: "wrap64 (wrap64 a - 1) = wrap64 (a - 1)"
proof -
  have "(wrap64 a - 1 + 2 ^ 63) mod 2 ^ 64 = ((a + 2 ^ 63) mod 2 ^ 64 - 1) mod 2 ^ 64"
    by (simp add: wrap64_def)
  also have "\<dots> = (a + 2 ^ 63 - 1) mod 2 ^ 64"
    by (simp add: mod_diff_left_eq)
  finally show ?thesis by (simp add: wrap64_def algebra_simps)
qed

lemma quo64_nonneg:
  assumes "0 \<le> a" "a < 2 ^ 63" "0 < b"
  shows "quo64 a b = a div b"
proof -
  have "0 \<le> a div b" using assms by (simp add: pos_imp_zdiv_nonneg_iff)
  moreover have "a div b \<le> a" using assms by (metis div_0 int_div_le_self leI nle_le)
  moreover have "sgn a * sgn b * (\<bar>a\<bar> div \<bar>b\<bar>) = a div b"
    using assms by (cases "a = 0") (simp_all add: sgn_if)
  ultimately have "wrap64 (sgn a * sgn b * (\<bar>a\<bar> div \<bar>b\<bar>)) = a div b"
    using assms by (simp only: wrap64_def) simp
  then show ?thesis by (simp only: quo64_def)
qed

lemma div_bounds:
  assumes "0 < (c::int)"
  shows "((f + c - 1) div c) * c \<le> f + c - 1" and "f + c - 1 < ((f + c - 1) div c) * c + c"
proof -
  let ?a = "f + c - 1"
  have "?a div c * c + ?a mod c = ?a" by (rule div_mult_mod_eq)
  moreover have "0 \<le> ?a mod c" using assms by (rule pos_mod_sign)
  moreover have "?a mod c < c" using assms by (rule pos_mod_bound)
  ultimately show "(?a div c) * c \<le> ?a" and "?a < (?a div c) * c + c" by linarith+
qed

text \<open>The idiom \<open>(f + c - 1) / c\<close> is the ceiling of \<open>f / c\<close>, on the integers.\<close>

lemma ceiling_div:
  assumes "0 < (c::int)"
  shows "\<lceil>real_of_int f / real_of_int c\<rceil> = (f + c - 1) div c"
proof (rule ceiling_unique)
  let ?t = "(f + c - 1) div c"
  have lo: "(?t - 1) * c < f" using div_bounds(1) [OF assms, of f] by (simp add: algebra_simps)
  have hi: "f \<le> ?t * c" using div_bounds(2) [OF assms, of f] by simp
  have "real_of_int ((?t - 1) * c) < real_of_int f" using lo by (simp only: of_int_less_iff)
  then show "real_of_int ?t - 1 < real_of_int f / real_of_int c"
    using assms by (simp add: pos_less_divide_eq)
  have "real_of_int f \<le> real_of_int (?t * c)" using hi by (simp only: of_int_le_iff)
  then show "real_of_int f / real_of_int c \<le> real_of_int ?t"
    using assms by (simp add: pos_divide_le_eq)
qed

lemma totalChunks_eq:
  assumes "0 \<le> fileSize" "0 < chunkSize" "fileSize + chunkSize - 1 < 2 ^ 63"
  shows "quo64 (wrap64 (wrap64 (fileSize + chunkSize) - 1)) chunkSize
       = (fileSize + chunkSize - 1) div chunkSize"
proof -
  have "wrap64 (wrap64 (fileSize + chunkSize) - 1) = fileSize + chunkSize - 1"
    using assms by (simp add: wrap64_pred wrap64_id)
  then show ?thesis using assms by (simp add: quo64_nonneg)
qed


lemma chunk_in_range:
  assumes "0 \<le> fileSize" "0 < chunkSize" "fileSize + chunkSize - 1 < 2 ^ 63"
    and "0 \<le> k" "k < (fileSize + chunkSize - 1) div chunkSize"
  shows "chunkOffset k chunkSize = k * chunkSize"
    and "chunkLength fileSize chunkSize (k * chunkSize)
       = (if k * chunkSize + chunkSize > fileSize then fileSize - k * chunkSize else chunkSize)"
    and "k * chunkSize < fileSize"
proof -
  let ?t = "(fileSize + chunkSize - 1) div chunkSize"
  have "k + 1 \<le> ?t" using assms(5) by simp
  then have "(k + 1) * chunkSize \<le> ?t * chunkSize"
    using assms(2) by (intro mult_right_mono) simp_all
  then have step: "k * chunkSize + chunkSize \<le> ?t * chunkSize" by (simp add: algebra_simps)
  have top: "?t * chunkSize \<le> fileSize + chunkSize - 1" using div_bounds(1) [OF assms(2)] .
  have low: "0 \<le> k * chunkSize" using assms(2,4) by simp
  show lt: "k * chunkSize < fileSize" using step top by linarith
  show "chunkOffset k chunkSize = k * chunkSize"
    using low lt assms(1,2,3) by (simp add: chunkOffset_def wrap64_id)
  have "wrap64 (k * chunkSize + chunkSize) = k * chunkSize + chunkSize"
    using low step top assms(2,3) by (intro wrap64_id) linarith+
  moreover have "wrap64 (fileSize - k * chunkSize) = fileSize - k * chunkSize"
    using low lt assms(1,2,3) by (intro wrap64_id) linarith+
  ultimately show "chunkLength fileSize chunkSize (k * chunkSize)
       = (if k * chunkSize + chunkSize > fileSize then fileSize - k * chunkSize else chunkSize)"
    by (simp add: chunkLength_def)
qed

lemma sizes_sum:
  fixes sz :: "nat \<Rightarrow> int"
  assumes "0 \<le> (f::int)" "\<And>k. k < n \<Longrightarrow> int k * c < f"
    and "\<And>k. k < n \<Longrightarrow> sz k = (if int k * c + c > f then f - int k * c else c)"
  shows "(\<Sum>k < n. sz k) = min (int n * c) f"
  using assms(2,3)
proof (induction n)
  case 0
  then show ?case using assms(1) by simp
next
  case (Suc n)
  have "(\<Sum>k < n. sz k) = min (int n * c) f" using Suc by simp
  moreover have "int n * c < f" using Suc.prems(1) [of n] by simp
  moreover have "sz n = (if int n * c + c > f then f - int n * c else c)"
    using Suc.prems(2) [of n] by simp
  ultimately show ?case by (simp add: min_def algebra_simps)
qed


lemma SendFileChunked_Inr:
  assumes "SendFileChunked fs filePath peerID options = Inr info"
  shows "statSize fs filePath = Inr (FileSize info)"
    and "FileTransferInfo.ChunkSize info = TransferOptions.ChunkSize options"
    and "TotalChunks info
       = quo64 (wrap64 (wrap64 (FileSize info + TransferOptions.ChunkSize options) - 1))
           (TransferOptions.ChunkSize options)"
    and "0 \<le> TotalChunks info"
    and "prepareChunks (calculateChunkChecksum fs filePath) (FileSize info)
           (TransferOptions.ChunkSize options) (TotalChunks info) 0
           (replicate (nat (TotalChunks info)) zeroChunk) = Inr (Chunks info)"
    and "Status info = ''completed''"
  using assms
  by (auto simp: SendFileChunked_def Let_def sendFileMetadata_def sendFileChunks_def
      makeSlicePanics_def split: option.splits sum.splits if_splits)

text \<open>
  The layout of the manifest where the \<open>int64\<close> arithmetic does not overflow, that is
  for \<open>FileSize + ChunkSize - 1 \<le> 2^63 - 1\<close>: the chunk count is the ceiling of
  \<open>FileSize / ChunkSize\<close>, chunk \<open>i\<close> starts at \<open>i * ChunkSize\<close>, is not empty and
  ends within the file, the sizes add up to the file size, and the last chunk has the
  remaining \<open>FileSize - (TotalChunks - 1) * ChunkSize\<close> bytes.
\<close>

lemma SendFileChunked_manifest:
  assumes res: "SendFileChunked fs filePath peerID options = Inr info"
    and f0: "0 \<le> FileSize info"
    and c0: "0 < TransferOptions.ChunkSize options"
    and fit: "FileSize info + TransferOptions.ChunkSize options - 1 < 2 ^ 63"
  shows "TotalChunks info
       = \<lceil>real_of_int (FileSize info) / real_of_int (TransferOptions.ChunkSize options)\<rceil>"
    and "length (Chunks info) = nat (TotalChunks info)"
    and "\<forall>i < length (Chunks info).
           Index (Chunks info ! i) = int i
         \<and> Offset (Chunks info ! i) = int i * TransferOptions.ChunkSize options
         \<and> 0 < Size (Chunks info ! i)
         \<and> Offset (Chunks info ! i) + Size (Chunks info ! i) \<le> FileSize info"
    and "sum_list (map Size (Chunks info)) = FileSize info"
    and "Chunks info \<noteq> [] \<longrightarrow>
           Size (last (Chunks info))
         = FileSize info - (TotalChunks info - 1) * TransferOptions.ChunkSize options"
    and "FileSize info = 0 \<longrightarrow> TotalChunks info = 0"
proof -
  let ?F = "FileSize info"
  let ?C = "TransferOptions.ChunkSize options"
  let ?T = "(?F + ?C - 1) div ?C"
  let ?cs = "Chunks info"
  have total: "TotalChunks info = ?T"
    using SendFileChunked_Inr(3) [OF res] totalChunks_eq [OF f0 c0 fit] by simp
  show ceil: "TotalChunks info = \<lceil>real_of_int ?F / real_of_int ?C\<rceil>"
    using total ceiling_div [OF c0, of ?F] by simp
  have T0: "0 \<le> ?T" using SendFileChunked_Inr(4) [OF res] total by simp
  from prepareChunks_layout [OF SendFileChunked_Inr(5) [OF res]]
  have len': "length ?cs = nat (TotalChunks info)"
    and lay: "\<And>k. k < nat (TotalChunks info) \<Longrightarrow>
        Index (?cs ! k) = int k \<and> Offset (?cs ! k) = chunkOffset (int k) ?C
        \<and> Size (?cs ! k) = chunkLength ?F ?C (chunkOffset (int k) ?C)"
    by auto
  show len: "length ?cs = nat (TotalChunks info)" by (rule len')
  have nth: "Index (?cs ! k) = int k" "Offset (?cs ! k) = int k * ?C"
      "Size (?cs ! k) = (if int k * ?C + ?C > ?F then ?F - int k * ?C else ?C)"
      "int k * ?C < ?F"
    if k: "k < length ?cs" for k
  proof -
    have kT: "int k < ?T" using k len total by simp
    note r = chunk_in_range [OF f0 c0 fit _ kT]
    from lay [of k] k len r show "Index (?cs ! k) = int k" "Offset (?cs ! k) = int k * ?C"
      "Size (?cs ! k) = (if int k * ?C + ?C > ?F then ?F - int k * ?C else ?C)"
      by simp_all
    from r show "int k * ?C < ?F" by simp
  qed
  show "\<forall>i < length ?cs. Index (?cs ! i) = int i \<and> Offset (?cs ! i) = int i * ?C
         \<and> 0 < Size (?cs ! i) \<and> Offset (?cs ! i) + Size (?cs ! i) \<le> ?F"
    using nth c0 by (auto split: if_splits)
  have upper: "?F \<le> ?T * ?C" using div_bounds(2) [OF c0, of ?F] by simp
  have lower: "?T * ?C \<le> ?F + ?C - 1" using div_bounds(1) [OF c0, of ?F] .
  have "sum_list (map Size ?cs) = (\<Sum>k < length ?cs. Size (?cs ! k))"
    by (simp add: sum_list_sum_nth atLeast0LessThan)
  also have "\<dots> = min (int (length ?cs) * ?C) ?F"
    using nth by (intro sizes_sum [OF f0]) simp_all
  also have "\<dots> = ?F" using upper len total T0 by simp
  finally show "sum_list (map Size ?cs) = ?F" .
  show "?cs \<noteq> [] \<longrightarrow> Size (last ?cs) = ?F - (TotalChunks info - 1) * ?C"
  proof
    assume ne: "?cs \<noteq> []"
    then have k: "length ?cs - 1 < length ?cs" by simp
    have idx: "int (length ?cs - 1) = ?T - 1" using ne len total by (cases ?cs) auto
    have "Size (last ?cs) = Size (?cs ! (length ?cs - 1))" using ne by (simp add: last_conv_nth)
    also have "\<dots> = (if (?T - 1) * ?C + ?C > ?F then ?F - (?T - 1) * ?C else ?C)"
      using nth(3) [OF k] idx by simp
    also have "\<dots> = ?F - (?T - 1) * ?C" using upper by (simp add: algebra_simps)
    finally show "Size (last ?cs) = ?F - (TotalChunks info - 1) * ?C" using total by simp
  qed
  show "?F = 0 \<longrightarrow> TotalChunks info = 0"
  proof
    assume "?F = 0"
    then have "?T = 0" using c0 by (simp add: div_pos_pos_trivial)
    with total show "TotalChunks info = 0" by simp
  qed
qed

text \<open>
  In that range, and with a chunk count that \<open>make\<close> accepts, the manifest is built
  whenever the file can be opened and read.
\<close>

lemma SendFileChunked_returns:
  assumes "openError fs filePath = None" "statSize fs filePath = Inr fileSize"
    and "0 \<le> fileSize" "0 < TransferOptions.ChunkSize options"
    and "fileSize + TransferOptions.ChunkSize options - 1 < 2 ^ 63"
    and "\<forall>offset size. \<exists>digest. calculateChunkChecksum fs filePath offset size = Inr digest"
    and "(fileSize + TransferOptions.ChunkSize options - 1) div TransferOptions.ChunkSize options
           * chunkInfoSize \<le> maxAlloc"
  shows "\<exists>info. SendFileChunked fs filePath peerID options = Inr info"
proof -
  let ?C = "TransferOptions.ChunkSize options"
  let ?T = "(fileSize + ?C - 1) div ?C"
  have total: "quo64 (wrap64 (wrap64 (fileSize + ?C) - 1)) ?C = ?T"
    using totalChunks_eq assms(3,4,5) by simp
  have "0 \<le> ?T" using assms(3,4) by (simp add: pos_imp_zdiv_nonneg_iff)
  moreover obtain out where "prepareChunks (calculateChunkChecksum fs filePath) fileSize ?C ?T 0
      (replicate (nat ?T) zeroChunk) = Inr out"
    using prepareChunks_returns [OF assms(6)] by blast
  ultimately show ?thesis
    using assms(1,2,4,7) total
    by (simp add: SendFileChunked_def Let_def sendFileMetadata_def sendFileChunks_def
        makeSlicePanics_def)
qed

text \<open>Unfolding the transfer on concrete sizes.\<close>

lemmas transfer_eval =
  SendFileChunked_def fileOfSize_def DefaultTransferOptions_def wrap64_def quo64_def
  prepareChunks.simps chunkOffset_def chunkLength_def zeroChunk_def sendFileMetadata_def
  sendFileChunks_def makeSlicePanics_def maxAlloc_def chunkInfoSize_def Let_def

text \<open>
  Claim C1 says that for every \<open>FileSize \<ge> 0\<close> and \<open>ChunkSize > 0\<close> the manifest has
  \<open>ceil(FileSize / ChunkSize)\<close> chunks whose sizes add up to \<open>FileSize\<close>. The code
  computes the count as \<open>(fileSize + chunkSize - 1) / chunkSize\<close> in \<open>int64\<close>, and the
  sum overflows when \<open>FileSize + ChunkSize - 1\<close> exceeds \<open>2^63 - 1\<close>. For a file of 10
  bytes and a chunk size of \<open>2^63 - 1\<close> the sum wraps to a negative number, the
  quotient is 0, and \<open>SendFileChunked\<close> completes with an empty manifest where the
  ceiling is 1; for a file of \<open>2^63 - 1\<close> bytes and the default chunk size the count is
  negative and \<open>make\<close> panics.
\<close>

theorem SendFileChunked_overflow:
  "\<not> isl (SendFileChunked (fileOfSize 10) ''f'' ''peer''
        (DefaultTransferOptions\<lparr>TransferOptions.ChunkSize := 9223372036854775807\<rparr>))
   \<and> FileSize (projr (SendFileChunked (fileOfSize 10) ''f'' ''peer''
        (DefaultTransferOptions\<lparr>TransferOptions.ChunkSize := 9223372036854775807\<rparr>))) = 10
   \<and> TotalChunks (projr (SendFileChunked (fileOfSize 10) ''f'' ''peer''
        (DefaultTransferOptions\<lparr>TransferOptions.ChunkSize := 9223372036854775807\<rparr>))) = 0
   \<and> Chunks (projr (SendFileChunked (fileOfSize 10) ''f'' ''peer''
        (DefaultTransferOptions\<lparr>TransferOptions.ChunkSize := 9223372036854775807\<rparr>))) = []
   \<and> \<lceil>real_of_int 10 / real_of_int 9223372036854775807\<rceil> = 1
   \<and> SendFileChunked (fileOfSize 9223372036854775807) ''f'' ''peer'' DefaultTransferOptions
       = Inl (Panic MakeSliceLenOutOfRange)"
  by (simp add: transfer_eval ceiling_div)

text \<open>A file of \<open>2^50\<close> bytes in chunks of 64 bytes: \<open>2^44\<close> chunks are more than \<open>make\<close> allocates.\<close>

lemma SendFileChunked_allocation_example:
  "SendFileChunked (fileOfSize (2 ^ 50)) ''f'' ''peer''
     (DefaultTransferOptions\<lparr>TransferOptions.ChunkSize := 64\<rparr>)
   = Inl (Panic MakeSliceLenOutOfRange)"
  by (simp add: transfer_eval)

text \<open>
  Claim C2, as the code has it: for \<open>FileSize = 10,500,000\<close> and
  \<open>ChunkSize = 1,048,576\<close> the manifest has exactly 11 chunks, and chunk 10 has
  \<open>Offset = 10,485,760\<close> and \<open>Size = 14,240\<close>, the bytes that remain
  (\<open>10,500,000 - 10,485,760\<close>).
\<close>

theorem SendFileChunked_example:
  assumes "SendFileChunked fs filePath peerID options = Inr info"
    and "FileSize info = 10500000"
    and "TransferOptions.ChunkSize options = 1048576"
  shows "TotalChunks info = 11 \<and> length (Chunks info) = 11
       \<and> Offset (Chunks info ! 10) = 10485760 \<and> Size (Chunks info ! 10) = 14240"
proof -
  have f0: "0 \<le> FileSize info" and c0: "0 < TransferOptions.ChunkSize options"
    and fit: "FileSize info + TransferOptions.ChunkSize options - 1 < 2 ^ 63"
    using assms(2,3) by simp_all
  note m = SendFileChunked_manifest [OF assms(1) f0 c0 fit]
  have total: "TotalChunks info = 11"
    using m(1) ceiling_div [OF c0, of "FileSize info"] assms(2,3) by simp
  have len: "length (Chunks info) = 11" using m(2) total by simp
  then have ne: "Chunks info \<noteq> []" by auto
  have "Offset (Chunks info ! 10) = 10485760" using m(3) len assms(3) by simp
  moreover have "Size (last (Chunks info)) = 14240" using m(5) ne total assms(2,3) by simp
  then have "Size (Chunks info ! 10) = 14240" using ne len by (simp add: last_conv_nth)
  ultimately show ?thesis using total len by simp
qed

text \<open>A file of 10,500,000 bytes sent with the default options.\<close>

theorem SendFileChunked_example_witness:
  "SendFileChunked (fileOfSize 10500000) ''f'' ''peer'' DefaultTransferOptions
     = Inr (projr (SendFileChunked (fileOfSize 10500000) ''f'' ''peer'' DefaultTransferOptions))
   \<and> length (Chunks (projr (SendFileChunked (fileOfSize 10500000) ''f'' ''peer'' DefaultTransferOptions))) = 11
   \<and> Offset (Chunks (projr (SendFileChunked (fileOfSize 10500000) ''f'' ''peer'' DefaultTransferOptions)) ! 10)
       = 10485760
   \<and> Size (Chunks (projr (SendFileChunked (fileOfSize 10500000) ''f'' ''peer'' DefaultTransferOptions)) ! 10)
       = 14240"
proof -
  have "\<exists>info. SendFileChunked (fileOfSize 10500000) ''f'' ''peer'' DefaultTransferOptions = Inr info"
    by (rule SendFileChunked_returns [where fileSize = 10500000])
       (simp_all add: fileOfSize_def DefaultTransferOptions_def maxAlloc_def chunkInfoSize_def)
  then obtain info where r: "SendFileChunked (fileOfSize 10500000) ''f'' ''peer'' DefaultTransferOptions = Inr info"
    by blast
  have f: "FileSize info = 10500000"
    using SendFileChunked_Inr(1) [OF r] by (simp add: fileOfSize_def)
  have c: "TransferOptions.ChunkSize DefaultTransferOptions = 1048576"
    by (simp add: DefaultTransferOptions_def)
  from SendFileChunked_example [OF r f c] r show ?thesis by simp
qed

text \<open>
  Claim C2 as stated gives chunk 10 the size 104,448; the manifest is built and the
  size of its chunk 10 is not 104,448.
\<close>

theorem SendFileChunked_example_counterexample:
  "\<not> isl (SendFileChunked (fileOfSize 10500000) ''f'' ''peer'' DefaultTransferOptions)
   \<and> Size (Chunks (projr (SendFileChunked (fileOfSize 10500000) ''f'' ''peer'' DefaultTransferOptions)) ! 10)
       \<noteq> 104448"
  by (simp add: transfer_eval)

section \<open>Peer resolution: proofs\<close>

lemma isIteration_set: "isIteration m entries \<Longrightarrow> (k, p) \<in> set entries \<longleftrightarrow> m k = Some p"
  by (auto simp: isIteration_def)

lemma foldedIDLoop_None:
  "foldedIDLoop equalFold q entries = None \<longleftrightarrow> (\<forall>(k, p) \<in> set entries. \<not> equalFold k q)"
  by (induction entries) (auto split: if_splits)

lemma foldedIDLoop_Some:
  "foldedIDLoop equalFold q entries = Some p \<Longrightarrow> \<exists>k. (k, p) \<in> set entries \<and> equalFold k q"
  by (induction entries) (auto split: if_splits)

lemma nameLoop_exact:
  "\<exists>(k, p) \<in> set entries. Peer.Name p = q \<Longrightarrow>
   \<exists>k p. nameLoop equalFold q entries matched n = Inl p \<and> (k, p) \<in> set entries \<and> Peer.Name p = q"
proof (induction entries arbitrary: matched n)
  case Nil
  then show ?case by simp
next
  case (Cons e entries)
  obtain k p where e: "e = (k, p)" by (cases e)
  show ?case
  proof (cases "Peer.Name p = q")
    case True
    with e show ?thesis by auto
  next
    case False
    with Cons.prems e have "\<exists>(k, p) \<in> set entries. Peer.Name p = q" by auto
    from Cons.IH [OF this] False e show ?thesis
      by (cases "equalFold (Peer.Name p) q") (simp_all, blast+)
  qed
qed

lemma nameLoop_folded:
  "\<forall>(k, p) \<in> set entries. Peer.Name p \<noteq> q \<Longrightarrow>
   \<exists>matched'. nameLoop equalFold q entries matched n
       = Inr (matched', n + int (length (filter (\<lambda>(k, p). equalFold (Peer.Name p) q) entries)))
     \<and> (case filter (\<lambda>(k, p). equalFold (Peer.Name p) q) entries of
           [] \<Rightarrow> matched' = matched
         | e # es \<Rightarrow> matched' = Some (snd (last (e # es))))"
proof (induction entries arbitrary: matched n)
  case Nil
  then show ?case by simp
next
  case (Cons e entries)
  obtain k p where e: "e = (k, p)" by (cases e)
  from Cons.prems e have ne: "Peer.Name p \<noteq> q" and rest: "\<forall>(k, p) \<in> set entries. Peer.Name p \<noteq> q"
    by auto
  show ?case
  proof (cases "equalFold (Peer.Name p) q")
    case True
    from Cons.IH [OF rest, of "Some p" "n + 1"] True ne e show ?thesis
      by (cases "filter (\<lambda>(k, p). equalFold (Peer.Name p) q) entries") auto
  next
    case False
    from Cons.IH [OF rest, of matched n] False ne e show ?thesis by auto
  qed
qed

text \<open>
  The resolution on a running node, for every directory, every order in which the two
  \<open>range\<close> loops visit it and every query: one statement per stage.
\<close>

lemma FindPeerByIdOrName_running:
  assumes run: "isRunning st"
    and it1: "isIteration (knownPeers st) idRange"
    and it2: "isIteration (knownPeers st) nameRange"
  shows "(\<forall>p. knownPeers st q = Some p \<longrightarrow>
            FindPeerByIdOrName equalFold idRange nameRange st q = Inr p)
     \<and> (knownPeers st q = None \<and> idMatches equalFold (knownPeers st) q \<noteq> {} \<longrightarrow>
          (\<exists>k p. knownPeers st k = Some p \<and> equalFold k q
              \<and> FindPeerByIdOrName equalFold idRange nameRange st q = Inr p))
     \<and> (knownPeers st q = None \<and> idMatches equalFold (knownPeers st) q = {}
          \<and> exactNameMatches (knownPeers st) q \<noteq> {} \<longrightarrow>
          (\<exists>k p. knownPeers st k = Some p \<and> Peer.Name p = q
              \<and> FindPeerByIdOrName equalFold idRange nameRange st q = Inr p))
     \<and> (\<forall>k p. knownPeers st q = None \<and> idMatches equalFold (knownPeers st) q = {}
          \<and> exactNameMatches (knownPeers st) q = {}
          \<and> nameMatches equalFold (knownPeers st) q = {k} \<and> knownPeers st k = Some p \<longrightarrow>
          FindPeerByIdOrName equalFold idRange nameRange st q = Inr p)
     \<and> (knownPeers st q = None \<and> idMatches equalFold (knownPeers st) q = {}
          \<and> exactNameMatches (knownPeers st) q = {}
          \<and> card (nameMatches equalFold (knownPeers st) q) > 1 \<longrightarrow>
          FindPeerByIdOrName equalFold idRange nameRange st q = Inl (AmbiguousPeer q))
     \<and> (knownPeers st q = None \<and> idMatches equalFold (knownPeers st) q = {}
          \<and> exactNameMatches (knownPeers st) q = {}
          \<and> nameMatches equalFold (knownPeers st) q = {} \<longrightarrow>
          FindPeerByIdOrName equalFold idRange nameRange st q = Inl (PeerNotFound q))"
proof -
  let ?m = "knownPeers st"
  let ?F = "filter (\<lambda>(k, p). equalFold (Peer.Name p) q) nameRange"
  let ?find = "FindPeerByIdOrName equalFold idRange nameRange st q"
  have mem1: "\<And>k p. (k, p) \<in> set idRange \<longleftrightarrow> ?m k = Some p"
    using it1 by (rule isIteration_set)
  have mem2: "\<And>k p. (k, p) \<in> set nameRange \<longleftrightarrow> ?m k = Some p"
    using it2 by (rule isIteration_set)
  have idNone: "foldedIDLoop equalFold q idRange = None \<longleftrightarrow> idMatches equalFold ?m q = {}"
    unfolding foldedIDLoop_None idMatches_def using mem1 [symmetric] by (fastforce simp: dom_def)
  have exactNone: "(\<forall>(k, p) \<in> set nameRange. Peer.Name p \<noteq> q) \<longleftrightarrow> exactNameMatches ?m q = {}"
    unfolding exactNameMatches_def using mem2 [symmetric] by fastforce
  have keysF: "set (map fst ?F) = nameMatches equalFold ?m q"
    unfolding nameMatches_def using mem2 [symmetric] by (fastforce simp: image_iff)
  have distF: "distinct (map fst ?F)"
    using it2 by (simp add: isIteration_def distinct_map_filter)
  have cardF: "card (nameMatches equalFold ?m q) = length ?F"
    using distinct_card [OF distF] keysF by simp
  have c1: "\<forall>p. ?m q = Some p \<longrightarrow> ?find = Inr p"
    using run by (simp add: FindPeerByIdOrName_def)
  have c2: "?m q = None \<and> idMatches equalFold ?m q \<noteq> {} \<longrightarrow>
      (\<exists>k p. ?m k = Some p \<and> equalFold k q \<and> ?find = Inr p)"
  proof (intro impI, elim conjE)
    assume none: "?m q = None" and ne: "idMatches equalFold ?m q \<noteq> {}"
    then obtain p where p: "foldedIDLoop equalFold q idRange = Some p"
      using idNone by (cases "foldedIDLoop equalFold q idRange") auto
    from foldedIDLoop_Some [OF p] obtain k where "(k, p) \<in> set idRange" "equalFold k q" by blast
    with mem1 p none run show "\<exists>k p. ?m k = Some p \<and> equalFold k q \<and> ?find = Inr p"
      by (auto simp: FindPeerByIdOrName_def)
  qed
  have c3: "?m q = None \<and> idMatches equalFold ?m q = {} \<and> exactNameMatches ?m q \<noteq> {} \<longrightarrow>
      (\<exists>k p. ?m k = Some p \<and> Peer.Name p = q \<and> ?find = Inr p)"
  proof (intro impI, elim conjE)
    assume none: "?m q = None" and noid: "idMatches equalFold ?m q = {}"
      and ex: "exactNameMatches ?m q \<noteq> {}"
    from ex exactNone have "\<exists>(k, p) \<in> set nameRange. Peer.Name p = q" by auto
    from nameLoop_exact [OF this, of equalFold None 0]
    obtain k p where "nameLoop equalFold q nameRange None 0 = Inl p" "(k, p) \<in> set nameRange"
      "Peer.Name p = q" by blast
    with mem2 none noid idNone run show "\<exists>k p. ?m k = Some p \<and> Peer.Name p = q \<and> ?find = Inr p"
      by (auto simp: FindPeerByIdOrName_def)
  qed
  have folded: "?m q = None \<Longrightarrow> idMatches equalFold ?m q = {} \<Longrightarrow> exactNameMatches ?m q = {} \<Longrightarrow>
      \<exists>matched'. nameLoop equalFold q nameRange None 0 = Inr (matched', int (length ?F))
        \<and> (case ?F of [] \<Rightarrow> matched' = None | e # es \<Rightarrow> matched' = Some (snd (last (e # es))))"
    using nameLoop_folded [of nameRange q equalFold None 0] exactNone by simp
  have c4: "\<forall>k p. ?m q = None \<and> idMatches equalFold ?m q = {} \<and> exactNameMatches ?m q = {}
      \<and> nameMatches equalFold ?m q = {k} \<and> ?m k = Some p \<longrightarrow> ?find = Inr p"
  proof (intro allI impI, elim conjE)
    fix k p
    assume none: "?m q = None" and noid: "idMatches equalFold ?m q = {}"
      and noex: "exactNameMatches ?m q = {}"
      and one: "nameMatches equalFold ?m q = {k}" and kp: "?m k = Some p"
    from one cardF have len: "length ?F = 1" by simp
    then obtain e where F: "?F = [e]" by (cases ?F) auto
    with keysF one have "fst e = k" by auto
    moreover have "e \<in> set ?F" using F by simp
    then have "e \<in> set nameRange" by simp
    ultimately have "snd e = p" using mem2 [of "fst e" "snd e"] kp by (cases e) auto
    with folded [OF none noid noex] F none noid idNone run
    show "?find = Inr p" by (auto simp: FindPeerByIdOrName_def)
  qed
  have c5: "?m q = None \<and> idMatches equalFold ?m q = {} \<and> exactNameMatches ?m q = {}
      \<and> card (nameMatches equalFold ?m q) > 1 \<longrightarrow> ?find = Inl (AmbiguousPeer q)"
  proof (intro impI, elim conjE)
    assume none: "?m q = None" and noid: "idMatches equalFold ?m q = {}"
      and noex: "exactNameMatches ?m q = {}"
      and many: "card (nameMatches equalFold ?m q) > 1"
    from many cardF have "length ?F > 1" by simp
    with folded [OF none noid noex] none noid idNone run
    show "?find = Inl (AmbiguousPeer q)" by (auto simp: FindPeerByIdOrName_def)
  qed
  have c6: "?m q = None \<and> idMatches equalFold ?m q = {} \<and> exactNameMatches ?m q = {}
      \<and> nameMatches equalFold ?m q = {} \<longrightarrow> ?find = Inl (PeerNotFound q)"
  proof (intro impI, elim conjE)
    assume none: "?m q = None" and noid: "idMatches equalFold ?m q = {}"
      and noex: "exactNameMatches ?m q = {}"
      and zero: "nameMatches equalFold ?m q = {}"
    from zero cardF have "?F = []" by simp
    with folded [OF none noid noex] none noid idNone run
    show "?find = Inl (PeerNotFound q)" by (auto simp: FindPeerByIdOrName_def)
  qed
  from c1 c2 c3 c4 c5 c6 show ?thesis by blast
qed

text \<open>
  Claim C5, as the code has it. On a node that is not running \<open>FindPeerByIdOrName\<close>
  returns the error "mesh node is not running", whatever the directory and the query.
  While the node is running, for every directory, every order in which the two
  \<open>range\<close> loops visit it and every query, it resolves in the order (1) the peer filed
  under exactly the query as ID, also when another peer's name is the query; (2) else a
  peer whose ID matches the query up to case; (3) else a peer whose name is exactly the
  query, also when other names match it up to case; (4) else the peer whose name
  matches up to case, when there is exactly one; with more than one such peer the error
  is \<open>AmbiguousPeer\<close>, and with no match at any stage it is \<open>PeerNotFound\<close>.
\<close>

theorem FindPeerByIdOrName_order:
  assumes "isIteration (knownPeers st) idRange"
    and "isIteration (knownPeers st) nameRange"
  shows "(\<not> isRunning st \<longrightarrow>
            FindPeerByIdOrName equalFold idRange nameRange st q = Inl NotRunning)
     \<and> (isRunning st \<longrightarrow>
          (\<forall>p. knownPeers st q = Some p \<longrightarrow>
            FindPeerByIdOrName equalFold idRange nameRange st q = Inr p)
        \<and> (knownPeers st q = None \<and> idMatches equalFold (knownPeers st) q \<noteq> {} \<longrightarrow>
            (\<exists>k p. knownPeers st k = Some p \<and> equalFold k q
                \<and> FindPeerByIdOrName equalFold idRange nameRange st q = Inr p))
        \<and> (knownPeers st q = None \<and> idMatches equalFold (knownPeers st) q = {}
            \<and> exactNameMatches (knownPeers st) q \<noteq> {} \<longrightarrow>
            (\<exists>k p. knownPeers st k = Some p \<and> Peer.Name p = q
                \<and> FindPeerByIdOrName equalFold idRange nameRange st q = Inr p))
        \<and> (\<forall>k p. knownPeers st q = None \<and> idMatches equalFold (knownPeers st) q = {}
            \<and> exactNameMatches (knownPeers st) q = {}
            \<and> nameMatches equalFold (knownPeers st) q = {k} \<and> knownPeers st k = Some p \<longrightarrow>
            FindPeerByIdOrName equalFold idRange nameRange st q = Inr p)
        \<and> (knownPeers st q = None \<and> idMatches equalFold (knownPeers st) q = {}
            \<and> exactNameMatches (knownPeers st) q = {}
            \<and> card (nameMatches equalFold (knownPeers st) q) > 1 \<longrightarrow>
            FindPeerByIdOrName equalFold idRange nameRange st q = Inl (AmbiguousPeer q))
        \<and> (knownPeers st q = None \<and> idMatches equalFold (knownPeers st) q = {}
            \<and> exactNameMatches (knownPeers st) q = {}
            \<and> nameMatches equalFold (knownPeers st) q = {} \<longrightarrow>
            FindPeerByIdOrName equalFold idRange nameRange st q = Inl (PeerNotFound q)))"
proof (rule conjI)
  show "\<not> isRunning st \<longrightarrow>
      FindPeerByIdOrName equalFold idRange nameRange st q = Inl NotRunning"
    by (simp add: FindPeerByIdOrName_def)
next
  show "isRunning st \<longrightarrow>
          (\<forall>p. knownPeers st q = Some p \<longrightarrow>
            FindPeerByIdOrName equalFold idRange nameRange st q = Inr p)
        \<and> (knownPeers st q = None \<and> idMatches equalFold (knownPeers st) q \<noteq> {} \<longrightarrow>
            (\<exists>k p. knownPeers st k = Some p \<and> equalFold k q
                \<and> FindPeerByIdOrName equalFold idRange nameRange st q = Inr p))
        \<and> (knownPeers st q = None \<and> idMatches equalFold (knownPeers st) q = {}
            \<and> exactNameMatches (knownPeers st) q \<noteq> {} \<longrightarrow>
            (\<exists>k p. knownPeers st k = Some p \<and> Peer.Name p = q
                \<and> FindPeerByIdOrName equalFold idRange nameRange st q = Inr p))
        \<and> (\<forall>k p. knownPeers st q = None \<and> idMatches equalFold (knownPeers st) q = {}
            \<and> exactNameMatches (knownPeers st) q = {}
            \<and> nameMatches equalFold (knownPeers st) q = {k} \<and> knownPeers st k = Some p \<longrightarrow>
            FindPeerByIdOrName equalFold idRange nameRange st q = Inr p)
        \<and> (knownPeers st q = None \<and> idMatches equalFold (knownPeers st) q = {}
            \<and> exactNameMatches (knownPeers st) q = {}
            \<and> card (nameMatches equalFold (knownPeers st) q) > 1 \<longrightarrow>
            FindPeerByIdOrName equalFold idRange nameRange st q = Inl (AmbiguousPeer q))
        \<and> (knownPeers st q = None \<and> idMatches equalFold (knownPeers st) q = {}
            \<and> exactNameMatches (knownPeers st) q = {}
            \<and> nameMatches equalFold (knownPeers st) q = {} \<longrightarrow>
            FindPeerByIdOrName equalFold idRange nameRange st q = Inl (PeerNotFound q))"
  proof (rule impI)
    assume "isRunning st"
    from FindPeerByIdOrName_running [OF this assms]
    show "(\<forall>p. knownPeers st q = Some p \<longrightarrow>
            FindPeerByIdOrName equalFold idRange nameRange st q = Inr p)
        \<and> (knownPeers st q = None \<and> idMatches equalFold (knownPeers st) q \<noteq> {} \<longrightarrow>
            (\<exists>k p. knownPeers st k = Some p \<and> equalFold k q
                \<and> FindPeerByIdOrName equalFold idRange nameRange st q = Inr p))
        \<and> (knownPeers st q = None \<and> idMatches equalFold (knownPeers st) q = {}
            \<and> exactNameMatches (knownPeers st) q \<noteq> {} \<longrightarrow>
            (\<exists>k p. knownPeers st k = Some p \<and> Peer.Name p = q
                \<and> FindPeerByIdOrName equalFold idRange nameRange st q = Inr p))
        \<and> (\<forall>k p. knownPeers st q = None \<and> idMatches equalFold (knownPeers st) q = {}
            \<and> exactNameMatches (knownPeers st) q = {}
            \<and> nameMatches equalFold (knownPeers st) q = {k} \<and> knownPeers st k = Some p \<longrightarrow>
            FindPeerByIdOrName equalFold idRange nameRange st q = Inr p)
        \<and> (knownPeers st q = None \<and> idMatches equalFold (knownPeers st) q = {}
            \<and> exactNameMatches (knownPeers st) q = {}
            \<and> card (nameMatches equalFold (knownPeers st) q) > 1 \<longrightarrow>
            FindPeerByIdOrName equalFold idRange nameRange st q = Inl (AmbiguousPeer q))
        \<and> (knownPeers st q = None \<and> idMatches equalFold (knownPeers st) q = {}
            \<and> exactNameMatches (knownPeers st) q = {}
            \<and> nameMatches equalFold (knownPeers st) q = {} \<longrightarrow>
            FindPeerByIdOrName equalFold idRange nameRange st q = Inl (PeerNotFound q))" .
  qed
qed

text \<open>Unfolding the coordinator on concrete directories.\<close>

lemmas mesh_eval = FindPeerByIdOrName_def meshNode_def peerNamed_def isIteration_def
  equalFoldASCII_def lowerASCII_def

text \<open>
  A directory that files a peer under the ID \<open>bob\<close> and holds another peer named
  \<open>bob\<close>: on a running node the query \<open>bob\<close> resolves to the former, and on a stopped
  node it yields the error of the guard.
\<close>

theorem FindPeerByIdOrName_order_witness:
  "isIteration [''bob'' \<mapsto> peerNamed ''bob'' ''Alice'', ''n2'' \<mapsto> peerNamed ''n2'' ''bob'']
        [(''n2'', peerNamed ''n2'' ''bob''), (''bob'', peerNamed ''bob'' ''Alice'')]
   \<and> FindPeerByIdOrName equalFoldASCII
        [(''n2'', peerNamed ''n2'' ''bob''), (''bob'', peerNamed ''bob'' ''Alice'')]
        [(''n2'', peerNamed ''n2'' ''bob''), (''bob'', peerNamed ''bob'' ''Alice'')]
        (meshNode True False False False
           [''bob'' \<mapsto> peerNamed ''bob'' ''Alice'', ''n2'' \<mapsto> peerNamed ''n2'' ''bob''])
        ''bob''
      = Inr (peerNamed ''bob'' ''Alice'')
   \<and> FindPeerByIdOrName equalFoldASCII
        [(''n2'', peerNamed ''n2'' ''bob''), (''bob'', peerNamed ''bob'' ''Alice'')]
        [(''n2'', peerNamed ''n2'' ''bob''), (''bob'', peerNamed ''bob'' ''Alice'')]
        (meshNode False False False False
           [''bob'' \<mapsto> peerNamed ''bob'' ''Alice'', ''n2'' \<mapsto> peerNamed ''n2'' ''bob''])
        ''bob''
      = Inl NotRunning"
  using FindPeerByIdOrName_order
    [of "meshNode True False False False
           [''bob'' \<mapsto> peerNamed ''bob'' ''Alice'', ''n2'' \<mapsto> peerNamed ''n2'' ''bob'']"
        "[(''n2'', peerNamed ''n2'' ''bob''), (''bob'', peerNamed ''bob'' ''Alice'')]"
        "[(''n2'', peerNamed ''n2'' ''bob''), (''bob'', peerNamed ''bob'' ''Alice'')]"
        equalFoldASCII "''bob''"]
    FindPeerByIdOrName_order
    [of "meshNode False False False False
           [''bob'' \<mapsto> peerNamed ''bob'' ''Alice'', ''n2'' \<mapsto> peerNamed ''n2'' ''bob'']"
        "[(''n2'', peerNamed ''n2'' ''bob''), (''bob'', peerNamed ''bob'' ''Alice'')]"
        "[(''n2'', peerNamed ''n2'' ''bob''), (''bob'', peerNamed ''bob'' ''Alice'')]"
        equalFoldASCII "''bob''"]
  by (simp add: meshNode_def isIteration_def)

text \<open>Two peers named \<open>Bob\<close> and \<open>bob\<close>, and the query \<open>BOB\<close>.\<close>

lemma FindPeerByIdOrName_ambiguous_example:
  "FindPeerByIdOrName equalFoldASCII
        [(''n1'', peerNamed ''n1'' ''Bob''), (''n2'', peerNamed ''n2'' ''bob'')]
        [(''n2'', peerNamed ''n2'' ''bob''), (''n1'', peerNamed ''n1'' ''Bob'')]
        (meshNode True False False False
           [''n1'' \<mapsto> peerNamed ''n1'' ''Bob'', ''n2'' \<mapsto> peerNamed ''n2'' ''bob''])
        ''BOB''
      = Inl (AmbiguousPeer ''BOB'')"
  by (simp add: mesh_eval)

text \<open>
  Claim C5 as stated, for every directory and query, fails on a node that is not
  running: \<open>FindPeerByIdOrName\<close> then returns the error "mesh node is not running"
  before it looks at the directory, so an exact ID match does not return the peer and
  a query without a match does not yield \<open>PeerNotFound\<close>.
\<close>

theorem FindPeerByIdOrName_stopped_counterexample:
  "isIteration [''bob'' \<mapsto> peerNamed ''bob'' ''Alice''] [(''bob'', peerNamed ''bob'' ''Alice'')]
   \<and> FindPeerByIdOrName equalFoldASCII
        [(''bob'', peerNamed ''bob'' ''Alice'')] [(''bob'', peerNamed ''bob'' ''Alice'')]
        (meshNode False False False False [''bob'' \<mapsto> peerNamed ''bob'' ''Alice'']) ''bob''
      \<noteq> Inr (peerNamed ''bob'' ''Alice'')
   \<and> FindPeerByIdOrName equalFoldASCII
        [(''bob'', peerNamed ''bob'' ''Alice'')] [(''bob'', peerNamed ''bob'' ''Alice'')]
        (meshNode False False False False [''bob'' \<mapsto> peerNamed ''bob'' ''Alice'']) ''carol''
      \<noteq> Inl (PeerNotFound ''carol'')"
  by (simp add: mesh_eval)

section \<open>Connection fallback: proofs\<close>

lemma attempted_all_fail:
  "(\<forall>s \<in> set (attempted st). outcome strategies peer s \<noteq> None) \<longleftrightarrow>
     connectDirectly strategies peer \<noteq> None
     \<and> (ClientIsolation (connectionInfo st) \<and> EnableWiFiDirect (meshConfig st) \<longrightarrow>
           connectViaWiFiDirect strategies peer \<noteq> None)
     \<and> (EnableRelay (meshConfig st) \<longrightarrow> connectViaRelay strategies peer \<noteq> None)"
  by (auto simp: attempted_def)

text \<open>
  Claim C3, as the code has it: for a peer that resolves, when every strategy that
  \<open>ConnectToPeer\<close> attempts fails, it returns an error, and that error reports the
  relay's error when the relay is enabled (the relay is then the last strategy
  attempted) and the direct connection's error otherwise, also when WiFi Direct was
  attempted after the direct connection. The error of WiFi Direct is dropped.
\<close>

theorem ConnectToPeer_all_fail:
  assumes "FindPeerByIdOrName equalFold idRange nameRange st peerID = Inr peer"
    and "\<forall>s \<in> set (attempted st). outcome strategies peer s \<noteq> None"
  shows "ConnectToPeer equalFold idRange nameRange strategies st peerID \<noteq> None
       \<and> ConnectToPeer equalFold idRange nameRange strategies st peerID
          = (if EnableRelay (meshConfig st)
             then map_option RelayFailed (connectViaRelay strategies peer)
             else map_option DirectFailed (connectDirectly strategies peer))
       \<and> (EnableRelay (meshConfig st) \<longleftrightarrow> last (attempted st) = Relay)"
proof -
  from assms(2) obtain directErr where d: "connectDirectly strategies peer = Some directErr"
    and w: "ClientIsolation (connectionInfo st) \<and> EnableWiFiDirect (meshConfig st) \<longrightarrow>
           connectViaWiFiDirect strategies peer \<noteq> None"
    and r: "EnableRelay (meshConfig st) \<longrightarrow> connectViaRelay strategies peer \<noteq> None"
    unfolding attempted_all_fail by auto
  have "ConnectToPeer equalFold idRange nameRange strategies st peerID
      = relayOrFail strategies st peer directErr"
    using assms(1) d w by (auto simp: ConnectToPeer_def split: option.splits)
  moreover have "relayOrFail strategies st peer directErr
      = (if EnableRelay (meshConfig st)
         then map_option RelayFailed (connectViaRelay strategies peer)
         else map_option DirectFailed (connectDirectly strategies peer))"
    using d by (auto simp: relayOrFail_def split: option.splits)
  moreover have "relayOrFail strategies st peer directErr \<noteq> None"
    using r by (auto simp: relayOrFail_def split: option.splits)
  moreover have "EnableRelay (meshConfig st) \<longleftrightarrow> last (attempted st) = Relay"
    by (simp add: attempted_def)
  ultimately show ?thesis by simp
qed

text \<open>Everything enabled and failing: the relay's error is returned.\<close>

theorem ConnectToPeer_all_fail_witness:
  "FindPeerByIdOrName equalFoldASCII [(''n1'', peerNamed ''n1'' ''Bob'')] [(''n1'', peerNamed ''n1'' ''Bob'')]
      (meshNode True True True True [''n1'' \<mapsto> peerNamed ''n1'' ''Bob'']) ''n1''
     = Inr (peerNamed ''n1'' ''Bob'')
   \<and> attempted (meshNode True True True True [''n1'' \<mapsto> peerNamed ''n1'' ''Bob''])
       = [Direct, WiFiDirect, Relay]
   \<and> outcome (failing ''direct refused'' ''no group owner'' ''relay down'') (peerNamed ''n1'' ''Bob'') Direct
       = Some ''direct refused''
   \<and> outcome (failing ''direct refused'' ''no group owner'' ''relay down'') (peerNamed ''n1'' ''Bob'') WiFiDirect
       = Some ''no group owner''
   \<and> outcome (failing ''direct refused'' ''no group owner'' ''relay down'') (peerNamed ''n1'' ''Bob'') Relay
       = Some ''relay down''
   \<and> last (attempted (meshNode True True True True [''n1'' \<mapsto> peerNamed ''n1'' ''Bob''])) = Relay
   \<and> ConnectToPeer equalFoldASCII [(''n1'', peerNamed ''n1'' ''Bob'')] [(''n1'', peerNamed ''n1'' ''Bob'')]
        (failing ''direct refused'' ''no group owner'' ''relay down'')
        (meshNode True True True True [''n1'' \<mapsto> peerNamed ''n1'' ''Bob'']) ''n1''
     = Some (RelayFailed ''relay down'')"
  using ConnectToPeer_all_fail
    [of equalFoldASCII "[(''n1'', peerNamed ''n1'' ''Bob'')]" "[(''n1'', peerNamed ''n1'' ''Bob'')]"
        "meshNode True True True True [''n1'' \<mapsto> peerNamed ''n1'' ''Bob'']" "''n1''"
        "peerNamed ''n1'' ''Bob''" "failing ''direct refused'' ''no group owner'' ''relay down''"]
  by (simp add: mesh_eval failing_def attempted_def)

text \<open>
  Claim C3 as stated fails when WiFi Direct is the last strategy attempted (client
  isolation detected, WiFi Direct enabled, relay disabled): the error returned is
  "failed to connect: direct connection error: ..." with the error of the direct
  connection, not the error that WiFi Direct produced.
\<close>

theorem ConnectToPeer_wifi_last_counterexample:
  "FindPeerByIdOrName equalFoldASCII [(''n1'', peerNamed ''n1'' ''Bob'')] [(''n1'', peerNamed ''n1'' ''Bob'')]
      (meshNode True True True False [''n1'' \<mapsto> peerNamed ''n1'' ''Bob'']) ''n1''
     = Inr (peerNamed ''n1'' ''Bob'')
   \<and> attempted (meshNode True True True False [''n1'' \<mapsto> peerNamed ''n1'' ''Bob'']) = [Direct, WiFiDirect]
   \<and> outcome (failing ''direct refused'' ''no group owner'' ''relay down'') (peerNamed ''n1'' ''Bob'') Direct
       = Some ''direct refused''
   \<and> outcome (failing ''direct refused'' ''no group owner'' ''relay down'') (peerNamed ''n1'' ''Bob'') WiFiDirect
       = Some ''no group owner''
   \<and> ConnectToPeer equalFoldASCII [(''n1'', peerNamed ''n1'' ''Bob'')] [(''n1'', peerNamed ''n1'' ''Bob'')]
        (failing ''direct refused'' ''no group owner'' ''relay down'')
        (meshNode True True True False [''n1'' \<mapsto> peerNamed ''n1'' ''Bob'']) ''n1''
     = Some (DirectFailed ''direct refused'')
   \<and> cause (DirectFailed ''direct refused'')
       \<noteq> outcome (failing ''direct refused'' ''no group owner'' ''relay down'') (peerNamed ''n1'' ''Bob'')
           (last (attempted (meshNode True True True False [''n1'' \<mapsto> peerNamed ''n1'' ''Bob''])))"
  by (simp add: mesh_eval failing_def attempted_def ConnectToPeer_def relayOrFail_def)

text \<open>The same run with the stubs of the source, which all fail with "not implemented".\<close>

lemma ConnectToPeer_source_stubs:
  "ConnectToPeer equalFoldASCII [(''n1'', peerNamed ''n1'' ''Bob'')] [(''n1'', peerNamed ''n1'' ''Bob'')]
        sourceStrategies
        (meshNode True True True False [''n1'' \<mapsto> peerNamed ''n1'' ''Bob'']) ''n1''
     = Some (DirectFailed ''not implemented'')"
  by (simp add: mesh_eval sourceStrategies_def ConnectToPeer_def relayOrFail_def)

section \<open>Peer discovery: proofs\<close>

lemma isDuplicate_iff: "isDuplicate peer results \<longleftrightarrow> PeerInfo.ID peer \<in> PeerInfo.ID ` set results"
  by (induction results) auto

lemma includeCached_appends:
  "\<exists>added. includeCached cachedPeers results = results @ added
     \<and> (\<forall>c \<in> set added. PeerInfo.SignalStrength c = 0
            \<and> (\<exists>c0 \<in> set cachedPeers. c = c0\<lparr>PeerInfo.SignalStrength := 0\<rparr>)
            \<and> PeerInfo.ID c \<notin> PeerInfo.ID ` set results)
     \<and> distinct (map PeerInfo.ID added)
     \<and> PeerInfo.ID ` set cachedPeers \<subseteq> PeerInfo.ID ` set (results @ added)"
proof (induction cachedPeers arbitrary: results)
  case Nil
  then show ?case by simp
next
  case (Cons peer rest)
  show ?case
  proof (cases "isDuplicate peer results")
    case True
    from Cons.IH [of results] obtain added where
      "includeCached rest results = results @ added"
      "\<forall>c \<in> set added. PeerInfo.SignalStrength c = 0
            \<and> (\<exists>c0 \<in> set rest. c = c0\<lparr>PeerInfo.SignalStrength := 0\<rparr>)
            \<and> PeerInfo.ID c \<notin> PeerInfo.ID ` set results"
      "distinct (map PeerInfo.ID added)"
      "PeerInfo.ID ` set rest \<subseteq> PeerInfo.ID ` set (results @ added)"
      by blast
    with True show ?thesis
      by (intro exI [of _ added]) (auto simp: isDuplicate_iff)
  next
    case False
    let ?c = "peer\<lparr>PeerInfo.SignalStrength := 0\<rparr>"
    from Cons.IH [of "results @ [?c]"] obtain added where a:
      "includeCached rest (results @ [?c]) = (results @ [?c]) @ added"
      "\<forall>c \<in> set added. PeerInfo.SignalStrength c = 0
            \<and> (\<exists>c0 \<in> set rest. c = c0\<lparr>PeerInfo.SignalStrength := 0\<rparr>)
            \<and> PeerInfo.ID c \<notin> PeerInfo.ID ` set (results @ [?c])"
      "distinct (map PeerInfo.ID added)"
      "PeerInfo.ID ` set rest \<subseteq> PeerInfo.ID ` set ((results @ [?c]) @ added)"
      by blast
    have 1: "includeCached (peer # rest) results = results @ (?c # added)"
      using False a(1) by simp
    have 2: "\<forall>c \<in> set (?c # added). PeerInfo.SignalStrength c = 0
            \<and> (\<exists>c0 \<in> set (peer # rest). c = c0\<lparr>PeerInfo.SignalStrength := 0\<rparr>)
            \<and> PeerInfo.ID c \<notin> PeerInfo.ID ` set results"
      using False a(2) by (auto simp: isDuplicate_iff)
    have 3: "distinct (map PeerInfo.ID (?c # added))"
      using a(2,3) by auto
    have 4: "PeerInfo.ID ` set (peer # rest) \<subseteq> PeerInfo.ID ` set (results @ (?c # added))"
      using a(4) by auto
    from 1 2 3 4 show ?thesis by blast
  qed
qed

lemma waitForResults_take:
  "waitForResults events n results errors
   = (results @ concat (map received (take (nat n) events)),
      errors @ concat (map failed (take (nat n) events)),
      int (length events) < n)"
proof (induction events arbitrary: n results errors)
  case Nil
  then show ?case by simp
next
  case (Cons e events)
  show ?case
  proof (cases "n > 0")
    case True
    then have t: "take (nat n) (x # events) = x # take (nat (n - 1)) events" for x
      by (cases "nat n") (auto simp: nat_diff_distrib)
    have l: "(int (length events) < n - 1) = (1 + int (length events) < n)" by linarith
    show ?thesis using True by (cases e) (simp_all add: Cons.IH t l)
  next
    case False
    then show ?thesis by (cases e) simp_all
  qed
qed

lemma launched_length: "launched options = int (length (launchedScanners options))"
  by (simp add: launched_def launchedScanners_def)

lemma arrived_length:
  assumes "distinct arrived" "set arrived \<subseteq> set (launchedScanners options)"
  shows "int (length arrived) \<le> launched options"
proof -
  have "length arrived = card (set arrived)" using assms(1) by (simp add: distinct_card)
  also have "\<dots> \<le> card (set (launchedScanners options))" using assms(2) by (simp add: card_mono)
  also have "\<dots> \<le> length (launchedScanners options)" by (rule card_length)
  finally show ?thesis by (simp add: launched_length)
qed

lemma received_send_ID:
  "map PeerInfo.ID (received (send s))
   = [case s of WifiDirectScanner \<Rightarrow> ''wfd-1234'' | BluetoothScanner \<Rightarrow> ''bt-5678''
      | TCPScanner \<Rightarrow> ''tcp-9012'']"
  by (cases s) (simp_all add: scanTask_def scanWifiDirect_def scanBluetooth_def scanTCP_def)

lemma live_distinct:
  assumes "distinct arrived"
  shows "distinct (map PeerInfo.ID (concat (map received (map send arrived))))"
proof -
  let ?f = "\<lambda>s. case s of WifiDirectScanner \<Rightarrow> ''wfd-1234'' | BluetoothScanner \<Rightarrow> ''bt-5678''
      | TCPScanner \<Rightarrow> ''tcp-9012''"
  have "map PeerInfo.ID (concat (map received (map send arrived))) = map ?f arrived"
    by (induction arrived) (simp_all add: received_send_ID)
  moreover have "inj ?f" by (auto simp: inj_on_def split: scanner.splits)
  ultimately show ?thesis using assms by (simp add: distinct_map inj_on_subset [OF _ subset_UNIV])
qed

lemma liveResults_arrived:
  assumes "distinct arrived" "set arrived \<subseteq> set (launchedScanners options)"
  shows "liveResults (map send arrived) options = concat (map received (map send arrived))"
  using arrived_length [OF assms] by (simp add: liveResults_def waitForResults_take)

text \<open>
  Claim C7. For every scan in which cache inclusion is requested, that is for every
  choice of options with \<open>IncludeCache\<close>, every run of the scanners (timed out or not)
  and every content of the cache: the merged result has no two entries sharing an ID;
  it is the live results, unchanged and in front, followed by cached entries, none of
  which has the ID of a live result (a live result displaces the cached entry with its
  ID); and every cached entry included is marked with \<open>SignalStrength\<close> 0.
\<close>

theorem ScanForPeersWithOptions_merge:
  assumes "IncludeCache options"
    and "distinct arrived" and "set arrived \<subseteq> set (launchedScanners options)"
  shows "distinct (map PeerInfo.ID (fst (ScanForPeersWithOptions (map send arrived) cachedPeers options)))
     \<and> (\<exists>added. fst (ScanForPeersWithOptions (map send arrived) cachedPeers options)
             = liveResults (map send arrived) options @ added
         \<and> (\<forall>c \<in> set added. PeerInfo.SignalStrength c = 0
              \<and> (\<exists>c0 \<in> set cachedPeers. c = c0\<lparr>PeerInfo.SignalStrength := 0\<rparr>)
              \<and> PeerInfo.ID c \<notin> PeerInfo.ID ` set (liveResults (map send arrived) options)))"
proof -
  let ?live = "liveResults (map send arrived) options"
  let ?scan = "ScanForPeersWithOptions (map send arrived) cachedPeers options"
  have dl: "distinct (map PeerInfo.ID ?live)"
    using live_distinct [OF assms(2)] liveResults_arrived [OF assms(2,3)] by simp
  show ?thesis
  proof (cases "int (length arrived) < launched options")
    case True
    then have "fst ?scan = ?live"
      by (simp add: ScanForPeersWithOptions_def liveResults_def waitForResults_take)
    with dl show ?thesis by (intro conjI exI [of _ "[]"]) simp_all
  next
    case False
    then have m: "fst ?scan = includeCached cachedPeers ?live"
      using assms(1) by (simp add: ScanForPeersWithOptions_def liveResults_def waitForResults_take)
    from includeCached_appends [of cachedPeers ?live]
    obtain added where a: "includeCached cachedPeers ?live = ?live @ added"
      "\<forall>c \<in> set added. PeerInfo.SignalStrength c = 0
            \<and> (\<exists>c0 \<in> set cachedPeers. c = c0\<lparr>PeerInfo.SignalStrength := 0\<rparr>)
            \<and> PeerInfo.ID c \<notin> PeerInfo.ID ` set ?live"
      "distinct (map PeerInfo.ID added)"
      by blast
    have "distinct (map PeerInfo.ID (?live @ added))"
      using dl a(2,3) by (fastforce simp: image_iff)
    with m a(1,2) show ?thesis by (intro conjI exI [of _ added]) simp_all
  qed
qed

text \<open>
  Claim C8, as the code has it, on the receives of the \<open>select\<close> loop (a scanner that
  hangs is one whose send never comes; the wall clock is not modelled): when the timer
  case is taken before every launched scanner has sent, \<open>ScanForPeersWithOptions\<close>
  returns the results received so far together with the error "scan timeout, partial
  results returned (errors: ...)", which lists the errors received so far and nothing
  about the scanners still awaited; when every launched scanner has sent, it returns
  no error.
\<close>

theorem ScanForPeersWithOptions_timeout:
  "(int (length events) < launched options \<longrightarrow>
      ScanForPeersWithOptions events cachedPeers options
        = (concat (map received events), Some (ScanTimeout (concat (map failed events)))))
   \<and> (launched options \<le> int (length events) \<longrightarrow>
      snd (ScanForPeersWithOptions events cachedPeers options) = None)"
  by (simp add: ScanForPeersWithOptions_def waitForResults_take)


text \<open>Unfolding the scan on concrete events.\<close>

lemmas scan_eval = ScanForPeersWithOptions_def DefaultScanOptions_def launched_def liveResults_def
  peerOn_def

text \<open>Unfolding the scanners of the source.\<close>

lemmas scanner_eval = scan_eval launchedScanners_def pending_def scanTask_def scanWifiDirect_def
  scanBluetooth_def scanTCP_def getCachedPeers_def

text \<open>
  All three scanners arrive. With a cache that holds a stale entry for the peer found
  over TCP and two entries for an absent peer, the stale entry is dropped and the
  absent peer is appended once, with signal strength 0; with the cache of the source
  the result is the three live peers.
\<close>

theorem ScanForPeersWithOptions_merge_witness:
  "IncludeCache DefaultScanOptions
   \<and> distinct [TCPScanner, WifiDirectScanner, BluetoothScanner]
   \<and> set [TCPScanner, WifiDirectScanner, BluetoothScanner] \<subseteq> set (launchedScanners DefaultScanOptions)
   \<and> ScanForPeersWithOptions (map send [TCPScanner, WifiDirectScanner, BluetoothScanner])
        [peerOn ''tcp-9012'' ''tcp'' 70, peerOn ''node-2'' ''tcp'' 90, peerOn ''node-2'' ''bluetooth'' 40]
        DefaultScanOptions
     = (received (send TCPScanner) @ received (send WifiDirectScanner)
          @ received (send BluetoothScanner) @ [peerOn ''node-2'' ''tcp'' 0], None)
   \<and> ScanForPeersWithOptions (map send [TCPScanner, WifiDirectScanner, BluetoothScanner])
        getCachedPeers DefaultScanOptions
     = (received (send TCPScanner) @ received (send WifiDirectScanner)
          @ received (send BluetoothScanner), None)"
  using ScanForPeersWithOptions_merge
    [of DefaultScanOptions "[TCPScanner, WifiDirectScanner, BluetoothScanner]"
        "[peerOn ''tcp-9012'' ''tcp'' 70, peerOn ''node-2'' ''tcp'' 90, peerOn ''node-2'' ''bluetooth'' 40]"]
  by (simp add: scanner_eval)

text \<open>
  A scan with a timeout of 0: the timer may be taken after one send, and then the error
  is returned with the one result; after all three sends there is no error.
\<close>

theorem ScanForPeersWithOptions_timeout_witness:
  "int (length (map send [WifiDirectScanner])) < launched (DefaultScanOptions\<lparr>Timeout := 0\<rparr>)
   \<and> ScanForPeersWithOptions (map send [WifiDirectScanner]) getCachedPeers
        (DefaultScanOptions\<lparr>Timeout := 0\<rparr>)
     = (received (send WifiDirectScanner), Some (ScanTimeout []))
   \<and> launched (DefaultScanOptions\<lparr>Timeout := 0\<rparr>)
       \<le> int (length (map send [WifiDirectScanner, TCPScanner, BluetoothScanner]))
   \<and> snd (ScanForPeersWithOptions (map send [WifiDirectScanner, TCPScanner, BluetoothScanner])
        getCachedPeers (DefaultScanOptions\<lparr>Timeout := 0\<rparr>)) = None"
  using ScanForPeersWithOptions_timeout
    [of "map send [WifiDirectScanner]" "DefaultScanOptions\<lparr>Timeout := 0\<rparr>" getCachedPeers]
    ScanForPeersWithOptions_timeout
    [of "map send [WifiDirectScanner, TCPScanner, BluetoothScanner]"
        "DefaultScanOptions\<lparr>Timeout := 0\<rparr>" getCachedPeers]
  by (simp add: scanner_eval)

text \<open>
  Claim C8 as stated has the error summarize which transports had not yet responded.
  Two runs of the source that time out with different scanners still awaited (all
  three, or Bluetooth and TCP only) return the same error, with an empty list of
  errors: the error does not tell which transports are missing.
\<close>

theorem ScanForPeersWithOptions_timeout_counterexample:
  "pending (DefaultScanOptions\<lparr>Timeout := 0\<rparr>) [] = [WifiDirectScanner, BluetoothScanner, TCPScanner]
   \<and> pending (DefaultScanOptions\<lparr>Timeout := 0\<rparr>) [WifiDirectScanner] = [BluetoothScanner, TCPScanner]
   \<and> snd (ScanForPeersWithOptions (map send []) getCachedPeers (DefaultScanOptions\<lparr>Timeout := 0\<rparr>))
       = Some (ScanTimeout [])
   \<and> snd (ScanForPeersWithOptions (map send [WifiDirectScanner]) getCachedPeers
            (DefaultScanOptions\<lparr>Timeout := 0\<rparr>))
       = Some (ScanTimeout [])
   \<and> pending (DefaultScanOptions\<lparr>Timeout := 0\<rparr>) []
       \<noteq> pending (DefaultScanOptions\<lparr>Timeout := 0\<rparr>) [WifiDirectScanner]"
  by (simp add: scanner_eval)

section \<open>Framed messages: proofs\<close>

lemma Uint32_PutUint32: "Uint32 (PutUint32 v) = v"
  unfolding Uint32_def PutUint32_def
proof (rule bit_word_eqI)
  fix n assume n: "n < LENGTH(32)"
  let ?w = "ucast ([ucast (drop_bit 24 v), ucast (drop_bit 16 v), ucast (drop_bit 8 v), ucast v :: byte] ! 3) OR
            push_bit 8 (ucast ([ucast (drop_bit 24 v), ucast (drop_bit 16 v), ucast (drop_bit 8 v), ucast v :: byte] ! 2)) OR
            push_bit 16 (ucast ([ucast (drop_bit 24 v), ucast (drop_bit 16 v), ucast (drop_bit 8 v), ucast v :: byte] ! 1)) OR
            push_bit 24 (ucast ([ucast (drop_bit 24 v), ucast (drop_bit 16 v), ucast (drop_bit 8 v), ucast v :: byte] ! 0)) :: 32 word"
  consider "n < 8" | "8 \<le> n" "n < 16" | "16 \<le> n" "n < 24" | "24 \<le> n" by linarith
  then show "bit ?w n = bit v n"
    using n by cases (auto simp: bit_simps)
qed

lemma length_PutUint32: "length (PutUint32 v) = 4"
  by (simp add: PutUint32_def)

lemma uint_length32: "n < 2 ^ 32 \<Longrightarrow> uint (of_nat n :: 32 word) = int n"
  by (simp add: uint_nat unat_of_nat)

lemma handlePeer_packed:
  assumes "1 \<le> length payload" "length payload \<le> 100 * 1024 * 1024"
  shows "handlePeer process (packMessage payload @ stream)
       = consMessage payload (handlePeer process stream)"
proof -
  have len: "uint (of_nat (length payload) :: 32 word) = int (length payload)"
    using assms by (intro uint_length32) simp
  have ne: "payload \<noteq> []" using assms by auto
  have hdr: "take 4 (packMessage payload @ stream) = PutUint32 (of_nat (length payload))"
    by (simp add: packMessage_def length_PutUint32)
  have rest: "drop 4 (packMessage payload @ stream) = payload @ stream"
    by (simp add: packMessage_def length_PutUint32)
  show ?thesis
    using assms ne
    by (subst handlePeer.simps)
       (simp add: hdr rest Uint32_PutUint32 len maxMessageSize_def isFatalError_def Let_def
          packMessage_def length_PutUint32 split: option.splits)
qed


lemma handlePeer_empty: "handlePeer process [] = ([], EndOfStream)"
  by (subst handlePeer.simps) simp

lemma handlePeer_frames:
  assumes "\<forall>p \<in> set payloads. 1 \<le> length p \<and> length p \<le> 100 * 1024 * 1024"
  shows "handlePeer process (concat (map packMessage payloads) @ stream)
       = (payloads @ fst (handlePeer process stream), snd (handlePeer process stream))"
  using assms
proof (induction payloads)
  case Nil
  then show ?case by simp
next
  case (Cons p payloads)
  then show ?case by (simp add: handlePeer_packed consMessage_def)
qed

text \<open>
  Claim C10. Framing round trip. For payloads of 1 to \<open>100 * 1024 * 1024\<close> bytes,
  \<open>packMessage\<close> yields the 4-byte big-endian length followed by the payload, the
  length read back from those 4 bytes is the payload's length, the read loop of
  \<open>handlePeer\<close> on one packed message hands exactly that payload to
  \<open>processMessage\<close>, and on a concatenation of packed messages it hands over exactly
  those payloads, in order, before it meets the end of the stream.
\<close>

theorem packMessage_roundtrip:
  assumes "\<forall>p \<in> set payloads. 1 \<le> length p \<and> length p \<le> 100 * 1024 * 1024"
  shows "(\<forall>p \<in> set payloads.
            packMessage p = PutUint32 (of_nat (length p)) @ p
          \<and> uint (Uint32 (take 4 (packMessage p))) = int (length p)
          \<and> handlePeer process (packMessage p) = ([p], EndOfStream))
       \<and> handlePeer process (concat (map packMessage payloads)) = (payloads, EndOfStream)"
proof (intro conjI ballI)
  fix p assume p: "p \<in> set payloads"
  with assms have b: "1 \<le> length p" "length p \<le> 100 * 1024 * 1024" by auto
  show "packMessage p = PutUint32 (of_nat (length p)) @ p" by (simp add: packMessage_def)
  show "uint (Uint32 (take 4 (packMessage p))) = int (length p)"
    using b by (simp add: packMessage_def length_PutUint32 Uint32_PutUint32 uint_length32)
  show "handlePeer process (packMessage p) = ([p], EndOfStream)"
    using handlePeer_packed [OF b, of process "[]"] by (simp add: handlePeer_empty consMessage_def)
next
  show "handlePeer process (concat (map packMessage payloads)) = (payloads, EndOfStream)"
    using handlePeer_frames [OF assms, of process "[]"] by (simp add: handlePeer_empty)
qed

theorem packMessage_roundtrip_witness:
  "concat (map packMessage [[1, 2, 3], [123 :: byte]]) = [0, 0, 0, 3, 1, 2, 3, 0, 0, 0, 1, 123]
   \<and> handlePeer (\<lambda>_. None) [0, 0, 0, 3, 1, 2, 3, 0, 0, 0, 1, 123]
       = ([[1, 2, 3], [123]], EndOfStream)"
  using packMessage_roundtrip [of "[[1, 2, 3], [123 :: byte]]" "\<lambda>_. None"]
  by (simp add: packMessage_def PutUint32_def)

text \<open>
  Claim C4. For a frame read at any point of an established connection (after any
  number of well-formed frames): when the declared length exceeds the maximum of
  100 MiB the loop is left and the connection closed, nothing that follows being
  read; when the declared length is 0 (or negative, which a 64-bit \<open>int\<close> never is
  here) the frame is skipped and the reader goes on with the bytes after the 4-byte
  prefix as the next frame.
\<close>

theorem handlePeer_length_guard:
  assumes "\<forall>p \<in> set payloads. 1 \<le> length p \<and> length p \<le> 100 * 1024 * 1024"
    and "4 \<le> length stream"
  shows "(uint (Uint32 (take 4 stream)) > maxMessageSize \<longrightarrow>
            handlePeer process (concat (map packMessage payloads) @ stream)
              = (payloads, LengthTooLarge))
       \<and> (uint (Uint32 (take 4 stream)) \<le> 0 \<longrightarrow>
            handlePeer process (concat (map packMessage payloads) @ stream)
              = handlePeer process (concat (map packMessage payloads) @ drop 4 stream))"
proof (intro conjI impI)
  assume "uint (Uint32 (take 4 stream)) > maxMessageSize"
  with assms(2) have "handlePeer process stream = ([], LengthTooLarge)"
    by (subst handlePeer.simps) (simp add: Let_def)
  then show "handlePeer process (concat (map packMessage payloads) @ stream) = (payloads, LengthTooLarge)"
    by (simp add: handlePeer_frames [OF assms(1)])
next
  assume "uint (Uint32 (take 4 stream)) \<le> 0"
  with assms(2) have "handlePeer process stream = handlePeer process (drop 4 stream)"
    by (subst handlePeer.simps) (simp add: Let_def maxMessageSize_def)
  then show "handlePeer process (concat (map packMessage payloads) @ stream)
      = handlePeer process (concat (map packMessage payloads) @ drop 4 stream)"
    by (simp add: handlePeer_frames [OF assms(1)])
qed

theorem handlePeer_length_guard_witness:
  "packMessage [9] = [0, 0, 0, 1, 9]
   \<and> uint (Uint32 (take 4 [6, 64, 0, 1, 0, 0, 0, 2, 7, 8])) = maxMessageSize + 1
   \<and> handlePeer (\<lambda>_. None) ([0, 0, 0, 1, 9] @ [6, 64, 0, 1, 0, 0, 0, 2, 7, 8]) = ([[9]], LengthTooLarge)
   \<and> uint (Uint32 (take 4 [0, 0, 0, 0, 0, 0, 0, 2, 7, 8])) = 0
   \<and> handlePeer (\<lambda>_. None) ([0, 0, 0, 1, 9] @ [0, 0, 0, 0, 0, 0, 0, 2, 7, 8])
       = ([[9], [7, 8]], EndOfStream)"
  using handlePeer_length_guard [of "[[9]]" "[6, 64, 0, 1, 0, 0, 0, 2, 7, 8]" "\<lambda>_. None"]
    handlePeer_length_guard [of "[[9]]" "[0, 0, 0, 0, 0, 0, 0, 2, 7, 8]" "\<lambda>_. None"]
  by (simp add: handlePeer.simps Uint32_def maxMessageSize_def consMessage_def Let_def
      packMessage_def PutUint32_def)

end
